theory Spec2Isabelle
  imports Main "HOL-Library.Word"
begin

section \<open>Values of the JavaScript program\<close>

text \<open>
  The journal encryption code of \<^verbatim>\<open>mental-health-app/src/App.jsx\<close> works on
  \<^verbatim>\<open>Uint8Array\<close> buffers and on JavaScript strings. A buffer is a list of
  8-bit words; a JavaScript string is a list of 16-bit code units.
\<close>

type_synonym byte = "8 word"

type_synonym jsstring = "16 word list"

text \<open>A string literal of the source (ASCII) as a JavaScript string.\<close>

definition js :: "string \<Rightarrow> jsstring" where
  "js s = map of_char s"

text \<open>
  The exceptions the code can meet: \<^verbatim>\<open>new Error(msg)\<close> thrown by the
  application itself, the \<^verbatim>\<open>InvalidCharacterError\<close> of \<^verbatim>\<open>atob\<close>
  and \<^verbatim>\<open>btoa\<close>, the \<^verbatim>\<open>OperationError\<close> of
  \<^verbatim>\<open>crypto.subtle\<close>, and the \<^verbatim>\<open>TypeError\<close> of destructuring
  \<^verbatim>\<open>undefined\<close>.
\<close>

datatype error = Error string | InvalidCharacterError | OperationError | TypeError

section \<open>Base64: \<^verbatim>\<open>btoa\<close>, \<^verbatim>\<open>atob\<close>, \<^verbatim>\<open>bufToB64\<close>, \<^verbatim>\<open>b64ToBuf\<close>\<close>

text \<open>
  \<^verbatim>\<open>btoa\<close> and \<^verbatim>\<open>atob\<close> are the browser's functions (HTML standard,
  ``forgiving-base64 encode'' and ``forgiving-base64 decode''). They are written out on
  numbers: a sextet is a number below 64, a character is its code.
\<close>

definition b64_char :: "nat \<Rightarrow> nat" where
  "b64_char i =
     (if i < 26 then 65 + i
      else if i < 52 then 97 + (i - 26)
      else if i < 62 then 48 + (i - 52)
      else if i = 62 then 43
      else 47)"

definition b64_value :: "nat \<Rightarrow> nat option" where
  "b64_value c =
     (if 65 \<le> c \<and> c \<le> 90 then Some (c - 65)
      else if 97 \<le> c \<and> c \<le> 122 then Some (c - 97 + 26)
      else if 48 \<le> c \<and> c \<le> 57 then Some (c - 48 + 52)
      else if c = 43 then Some 62
      else if c = 47 then Some 63
      else None)"

text \<open>Three bytes give four characters; a last group of one or two bytes is padded with \<open>=\<close> (61).\<close>

fun b64_encode :: "nat list \<Rightarrow> nat list" where
  "b64_encode (a # b # c # rest) =
     b64_char (a div 4) # b64_char ((a mod 4) * 16 + b div 16) #
     b64_char ((b mod 16) * 4 + c div 64) # b64_char (c mod 64) # b64_encode rest"
| "b64_encode [a, b] =
     [b64_char (a div 4), b64_char ((a mod 4) * 16 + b div 16), b64_char ((b mod 16) * 4), 61]"
| "b64_encode [a] = [b64_char (a div 4), b64_char ((a mod 4) * 16), 61, 61]"
| "b64_encode [] = []"

text \<open>
  \<^verbatim>\<open>btoa(s)\<close> throws \<^verbatim>\<open>InvalidCharacterError\<close> when \<open>s\<close> has a code unit
  above 255, and encodes the code units as bytes otherwise.
\<close>

definition btoa :: "jsstring \<Rightarrow> error + jsstring" where
  "btoa s =
     (if \<exists>c \<in> set s. 255 < unat c then Inl InvalidCharacterError
      else Inr (map of_nat (b64_encode (map unat s))))"

text \<open>
  \<^verbatim>\<open>atob(data)\<close>: remove ASCII whitespace; when the length is a multiple of four
  remove one or two trailing \<open>=\<close>; fail when the length is 1 modulo 4 or a character is
  outside the alphabet; otherwise decode groups of four sextets into three bytes, a last
  group of two or three sextets into one or two bytes, the spare bits discarded.
\<close>

definition ascii_whitespace :: "nat \<Rightarrow> bool" where
  "ascii_whitespace c \<longleftrightarrow> c = 9 \<or> c = 10 \<or> c = 12 \<or> c = 13 \<or> c = 32"

definition strip_padding :: "nat list \<Rightarrow> nat list" where
  "strip_padding d =
     (if d \<noteq> [] \<and> last d = 61
      then (let d' = butlast d in if d' \<noteq> [] \<and> last d' = 61 then butlast d' else d')
      else d)"

fun b64_decode :: "nat list \<Rightarrow> nat list" where
  "b64_decode (w # x # y # z # rest) =
     (w * 4 + x div 16) # ((x mod 16) * 16 + y div 4) # ((y mod 4) * 64 + z) # b64_decode rest"
| "b64_decode [w, x, y] = [w * 4 + x div 16, (x mod 16) * 16 + y div 4]"
| "b64_decode [w, x] = [w * 4 + x div 16]"
| "b64_decode [w] = []"
| "b64_decode [] = []"

definition atob :: "jsstring \<Rightarrow> error + jsstring" where
  "atob b64 =
     (let d = filter (\<lambda>c. \<not> ascii_whitespace c) (map unat b64);
          d = (if length d mod 4 = 0 then strip_padding d else d)
      in if length d mod 4 = 1 then Inl InvalidCharacterError
         else if \<exists>c \<in> set d. b64_value c = None then Inl InvalidCharacterError
         else Inr (map of_nat (b64_decode (map (\<lambda>c. the (b64_value c)) d))))"

text \<open>
  \<^verbatim>\<open>function b64ToBuf(b64) { return Uint8Array.from(atob(b64), c => c.charCodeAt(0)); }\<close>
  Storing a number in a \<^verbatim>\<open>Uint8Array\<close> keeps its low eight bits.
\<close>

definition b64ToBuf :: "jsstring \<Rightarrow> error + byte list" where
  "b64ToBuf b64 = (case atob b64 of Inl e \<Rightarrow> Inl e | Inr s \<Rightarrow> Inr (map ucast s))"

text \<open>
  \<^verbatim>\<open>function bufToB64(buf) { let s = ''; const b = new Uint8Array(buf);
  for (let i=0;i<b.length;i++) s += String.fromCharCode(b[i]); return btoa(s); }\<close>
\<close>

definition bufToB64 :: "byte list \<Rightarrow> error + jsstring" where
  "bufToB64 buf = btoa (map ucast buf)"

text \<open>The sextets of a byte sequence, without characters and padding (used in the proofs).\<close>

fun b64_sextets :: "nat list \<Rightarrow> nat list" where
  "b64_sextets (a # b # c # rest) =
     (a div 4) # ((a mod 4) * 16 + b div 16) # ((b mod 16) * 4 + c div 64) # (c mod 64) #
     b64_sextets rest"
| "b64_sextets [a, b] = [a div 4, (a mod 4) * 16 + b div 16, (b mod 16) * 4]"
| "b64_sextets [a] = [a div 4, (a mod 4) * 16]"
| "b64_sextets [] = []"

text \<open>The text that \<^verbatim>\<open>bufToB64\<close> returns for a buffer (shown below).\<close>

definition b64_text :: "byte list \<Rightarrow> jsstring" where
  "b64_text buf = map of_nat (b64_encode (map unat buf))"

section \<open>Text: \<^verbatim>\<open>TextEncoder\<close>, \<^verbatim>\<open>TextDecoder\<close>, \<^verbatim>\<open>strToBuf\<close>, \<^verbatim>\<open>bufToStr\<close>\<close>

text \<open>
  \<^verbatim>\<open>new TextEncoder().encode(s)\<close> (Encoding standard): the string is first converted
  to scalar values, a surrogate pair giving one code point and an unpaired surrogate
  giving U+FFFD; every scalar value is then written in UTF-8.
\<close>

fun utf16_decode :: "nat list \<Rightarrow> nat list" where
  "utf16_decode (u # v # rest) =
     (if 0xD800 \<le> u \<and> u \<le> 0xDBFF then
        (if 0xDC00 \<le> v \<and> v \<le> 0xDFFF
         then (0x10000 + (u - 0xD800) * 0x400 + (v - 0xDC00)) # utf16_decode rest
         else 0xFFFD # utf16_decode (v # rest))
      else if 0xDC00 \<le> u \<and> u \<le> 0xDFFF then 0xFFFD # utf16_decode (v # rest)
      else u # utf16_decode (v # rest))"
| "utf16_decode [u] = (if 0xD800 \<le> u \<and> u \<le> 0xDFFF then [0xFFFD] else [u])"
| "utf16_decode [] = []"

definition utf8_encode :: "nat \<Rightarrow> nat list" where
  "utf8_encode cp =
     (if cp < 0x80 then [cp]
      else if cp < 0x800 then [0xC0 + cp div 64, 0x80 + cp mod 64]
      else if cp < 0x10000 then [0xE0 + cp div 4096, 0x80 + cp div 64 mod 64, 0x80 + cp mod 64]
      else [0xF0 + cp div 262144, 0x80 + cp div 4096 mod 64, 0x80 + cp div 64 mod 64,
            0x80 + cp mod 64])"

definition TextEncoder_encode :: "jsstring \<Rightarrow> byte list" where
  "TextEncoder_encode s = map of_nat (concat (map utf8_encode (utf16_decode (map unat s))))"

text \<open>\<^verbatim>\<open>function strToBuf(s) { return new TextEncoder().encode(s); }\<close>\<close>

definition strToBuf :: "jsstring \<Rightarrow> byte list" where
  "strToBuf s = TextEncoder_encode s"

text \<open>
  \<^verbatim>\<open>new TextDecoder().decode(b)\<close>: the UTF-8 decoder of the Encoding standard, not
  fatal: a malformed sequence gives U+FFFD and the byte that ended it is read again.
  The decoder's state is the code point under construction, the bytes seen and needed,
  and the bounds of the next byte.
\<close>

record utf8_state =
  code_point :: nat
  bytes_seen :: nat
  bytes_needed :: nat
  lower_boundary :: nat
  upper_boundary :: nat

definition utf8_initial :: utf8_state where
  "utf8_initial =
     \<lparr>code_point = 0, bytes_seen = 0, bytes_needed = 0,
      lower_boundary = 0x80, upper_boundary = 0xBF\<rparr>"

text \<open>A byte read when no bytes are needed: what is emitted and the next state.\<close>

definition utf8_lead :: "nat \<Rightarrow> nat list \<times> utf8_state" where
  "utf8_lead b =
     (if b \<le> 0x7F then ([b], utf8_initial)
      else if 0xC2 \<le> b \<and> b \<le> 0xDF then
        ([], utf8_initial\<lparr>bytes_needed := 1, code_point := b mod 32\<rparr>)
      else if 0xE0 \<le> b \<and> b \<le> 0xEF then
        ([], utf8_initial\<lparr>bytes_needed := 2, code_point := b mod 16,
               lower_boundary := (if b = 0xE0 then 0xA0 else 0x80),
               upper_boundary := (if b = 0xED then 0x9F else 0xBF)\<rparr>)
      else if 0xF0 \<le> b \<and> b \<le> 0xF4 then
        ([], utf8_initial\<lparr>bytes_needed := 3, code_point := b mod 8,
               lower_boundary := (if b = 0xF0 then 0x90 else 0x80),
               upper_boundary := (if b = 0xF4 then 0x8F else 0xBF)\<rparr>)
      else ([0xFFFD], utf8_initial))"

fun utf8_decode :: "utf8_state \<Rightarrow> nat list \<Rightarrow> nat list" where
  "utf8_decode st [] = (if bytes_needed st \<noteq> 0 then [0xFFFD] else [])"
| "utf8_decode st (b # bs) =
     (if bytes_needed st = 0 then fst (utf8_lead b) @ utf8_decode (snd (utf8_lead b)) bs
      else if b < lower_boundary st \<or> upper_boundary st < b then
        0xFFFD # fst (utf8_lead b) @ utf8_decode (snd (utf8_lead b)) bs
      else if bytes_seen st + 1 \<noteq> bytes_needed st then
        utf8_decode (st\<lparr>lower_boundary := 0x80, upper_boundary := 0xBF,
                         code_point := code_point st * 64 + b mod 64,
                         bytes_seen := bytes_seen st + 1\<rparr>) bs
      else (code_point st * 64 + b mod 64) # utf8_decode utf8_initial bs)"

definition utf16_encode :: "nat \<Rightarrow> nat list" where
  "utf16_encode cp =
     (if cp < 0x10000 then [cp]
      else [0xD800 + (cp - 0x10000) div 0x400, 0xDC00 + (cp - 0x10000) mod 0x400])"

text \<open>
  \<^verbatim>\<open>ignoreBOM\<close> is false by default: a byte order mark U+FEFF at the start of the
  decoded text is not part of the result.
\<close>

definition drop_bom :: "nat list \<Rightarrow> nat list" where
  "drop_bom cps = (case cps of [] \<Rightarrow> [] | c # rest \<Rightarrow> if c = 0xFEFF then rest else cps)"

definition TextDecoder_decode :: "byte list \<Rightarrow> jsstring" where
  "TextDecoder_decode b =
     map of_nat (concat (map utf16_encode (drop_bom (utf8_decode utf8_initial (map unat b)))))"

text \<open>\<^verbatim>\<open>function bufToStr(b) { return new TextDecoder().decode(b); }\<close>\<close>

definition bufToStr :: "byte list \<Rightarrow> jsstring" where
  "bufToStr b = TextDecoder_decode b"

text \<open>
  A string is well formed when every surrogate code unit belongs to a pair (used in the
  statements about text).
\<close>

fun well_formed :: "nat list \<Rightarrow> bool" where
  "well_formed (u # v # rest) =
     (if 0xD800 \<le> u \<and> u \<le> 0xDBFF then 0xDC00 \<le> v \<and> v \<le> 0xDFFF \<and> well_formed rest
      else if 0xDC00 \<le> u \<and> u \<le> 0xDFFF then False
      else well_formed (v # rest))"
| "well_formed [u] = (\<not> (0xD800 \<le> u \<and> u \<le> 0xDFFF))"
| "well_formed [] = True"

text \<open>A scalar value is a code point that is not a surrogate.\<close>

definition scalar :: "nat \<Rightarrow> bool" where
  "scalar cp \<longleftrightarrow> cp < 0x110000 \<and> \<not> (0xD800 \<le> cp \<and> cp \<le> 0xDFFF)"

section \<open>WebCrypto\<close>

text \<open>
  The browser's primitives are parameters of the model: PBKDF2 with HMAC-SHA-256 (password,
  salt, iterations, length in bits), AES-GCM encryption and decryption (key, nonce, data).
  Decryption returns \<open>None\<close> where \<^verbatim>\<open>crypto.subtle.decrypt\<close> rejects with an
  \<^verbatim>\<open>OperationError\<close>.
\<close>

record webcrypto =
  pbkdf2 :: "byte list \<Rightarrow> byte list \<Rightarrow> nat \<Rightarrow> nat \<Rightarrow> byte list"
  aes_gcm_encrypt :: "byte list \<Rightarrow> byte list \<Rightarrow> byte list \<Rightarrow> byte list"
  aes_gcm_decrypt :: "byte list \<Rightarrow> byte list \<Rightarrow> byte list \<Rightarrow> byte list option"

record cryptokey =
  algorithm :: string
  key_length :: nat
  key_data :: "byte list"

text \<open>
  \<^verbatim>\<open>crypto.subtle.importKey('raw', data, 'PBKDF2', false, ['deriveKey'])\<close> accepts
  any key data. \<^verbatim>\<open>crypto.subtle.deriveKey\<close> with PBKDF2 rejects zero iterations, and
  an AES key length other than 128, 192 or 256; it accepts every password and every salt.
\<close>

definition subtle_deriveKey ::
  "webcrypto \<Rightarrow> byte list \<Rightarrow> nat \<Rightarrow> byte list \<Rightarrow> nat \<Rightarrow> error + cryptokey" where
  "subtle_deriveKey W slt iterations baseKey len =
     (if iterations = 0 then Inl OperationError
      else if len \<noteq> 128 \<and> len \<noteq> 192 \<and> len \<noteq> 256 then Inl OperationError
      else Inr \<lparr>algorithm = ''AES-GCM'', key_length = len,
                key_data = pbkdf2 W baseKey slt iterations len\<rparr>)"

text \<open>
  \<^verbatim>\<open>crypto.getRandomValues(new Uint8Array(n))\<close>: the random source is an infinite
  sequence of bytes; a call takes the next \<open>n\<close> and leaves the rest.
\<close>

type_synonym rng = "nat \<Rightarrow> byte"

definition getRandomValues :: "nat \<Rightarrow> rng \<Rightarrow> byte list \<times> rng" where
  "getRandomValues n r = (map r [0..<n], \<lambda>i. r (i + n))"

section \<open>The journal code of \<^verbatim>\<open>App.jsx\<close>\<close>

text \<open>
  \<^verbatim>\<open>async function deriveKey(passphrase, salt) {
    const baseKey = await crypto.subtle.importKey('raw', strToBuf(passphrase), 'PBKDF2', false, ['deriveKey']);
    return crypto.subtle.deriveKey({ name: 'PBKDF2', salt, iterations: 100000, hash: 'SHA-256' },
      baseKey, { name: 'AES-GCM', length: 256 }, false, ['encrypt', 'decrypt']); }\<close>
\<close>

definition deriveKey :: "webcrypto \<Rightarrow> jsstring \<Rightarrow> byte list \<Rightarrow> error + cryptokey" where
  "deriveKey W pw slt = (let baseKey = strToBuf pw in subtle_deriveKey W slt 100000 baseKey 256)"

record enc_payload =
  iv :: jsstring
  salt :: jsstring
  ciphertext :: jsstring

text \<open>
  \<^verbatim>\<open>async function encryptText(passphrase, plaintext) {
    const iv = crypto.getRandomValues(new Uint8Array(12));
    const salt = crypto.getRandomValues(new Uint8Array(16));
    const key = await deriveKey(passphrase, salt);
    const ct = await crypto.subtle.encrypt({ name: 'AES-GCM', iv }, key, strToBuf(plaintext));
    return { iv: bufToB64(iv), salt: bufToB64(salt), ciphertext: bufToB64(ct) }; }\<close>
  The function returns its result and the random source it leaves.
\<close>

definition encryptText ::
  "webcrypto \<Rightarrow> jsstring \<Rightarrow> jsstring \<Rightarrow> rng \<Rightarrow> (error + enc_payload) \<times> rng" where
  "encryptText W pw plaintext r =
     (let (iv0, r1) = getRandomValues 12 r;
          (salt0, r2) = getRandomValues 16 r1
      in case deriveKey W pw salt0 of
           Inl e \<Rightarrow> (Inl e, r2)
         | Inr key \<Rightarrow>
             (let ct = aes_gcm_encrypt W (key_data key) iv0 (strToBuf plaintext)
              in case bufToB64 iv0 of
                   Inl e \<Rightarrow> (Inl e, r2)
                 | Inr iv64 \<Rightarrow>
                     (case bufToB64 salt0 of
                        Inl e \<Rightarrow> (Inl e, r2)
                      | Inr salt64 \<Rightarrow>
                          (case bufToB64 ct of
                             Inl e \<Rightarrow> (Inl e, r2)
                           | Inr ct64 \<Rightarrow>
                               (Inr \<lparr>iv = iv64, salt = salt64, ciphertext = ct64\<rparr>, r2)))))"

text \<open>
  \<^verbatim>\<open>async function decryptText(passphrase, { iv, salt, ciphertext }) {
    const key = await deriveKey(passphrase, b64ToBuf(salt));
    const pt = await crypto.subtle.decrypt({ name: 'AES-GCM', iv: b64ToBuf(iv) }, key, b64ToBuf(ciphertext));
    return bufToStr(pt); }\<close>
  The second argument is \<open>None\<close> when the caller passes \<^verbatim>\<open>undefined\<close>: destructuring
  it throws a \<^verbatim>\<open>TypeError\<close>.
\<close>

definition decryptText :: "webcrypto \<Rightarrow> jsstring \<Rightarrow> enc_payload option \<Rightarrow> error + jsstring" where
  "decryptText W pw payload =
     (case payload of
        None \<Rightarrow> Inl TypeError
      | Some p \<Rightarrow>
          (case b64ToBuf (salt p) of
             Inl e \<Rightarrow> Inl e
           | Inr salt0 \<Rightarrow>
               (case deriveKey W pw salt0 of
                  Inl e \<Rightarrow> Inl e
                | Inr key \<Rightarrow>
                    (case b64ToBuf (iv p) of
                       Inl e \<Rightarrow> Inl e
                     | Inr iv0 \<Rightarrow>
                         (case b64ToBuf (ciphertext p) of
                            Inl e \<Rightarrow> Inl e
                          | Inr ct \<Rightarrow>
                              (case aes_gcm_decrypt W (key_data key) iv0 ct of
                                 None \<Rightarrow> Inl OperationError
                               | Some pt \<Rightarrow> Inr (bufToStr pt)))))))"

text \<open>
  Encrypting a text under one passphrase and decrypting the record under another, which
  several statements are about.
\<close>

definition encrypt_then_decrypt ::
  "webcrypto \<Rightarrow> jsstring \<Rightarrow> jsstring \<Rightarrow> jsstring \<Rightarrow> rng \<Rightarrow> error + jsstring" where
  "encrypt_then_decrypt W pw pw' plaintext r =
     (case fst (encryptText W pw plaintext r) of
        Inl e \<Rightarrow> Inl e
      | Inr payload \<Rightarrow> decryptText W pw' (Some payload))"

text \<open>
  A journal entry is a JavaScript object; a field that may be absent or
  \<^verbatim>\<open>undefined\<close> is an option. \<^verbatim>\<open>JournalEditor\<close> builds
  \<^verbatim>\<open>{ id, date, mood, moodLabel, note, tags }\<close>; \<^verbatim>\<open>addEntry\<close> adds
  \<^verbatim>\<open>encrypted\<close> and \<^verbatim>\<open>enc\<close>.
\<close>

record entry =
  id' :: nat
  date :: jsstring
  mood :: "nat option"
  moodLabel :: "jsstring option"
  note' :: "jsstring option"
  tags :: "jsstring list"
  encrypted :: "bool option"
  enc :: "enc_payload option"

text \<open>The state of \<^verbatim>\<open>JournalProvider\<close>, the \<^verbatim>\<open>journalEntries\<close> item of
  \<^verbatim>\<open>localStorage\<close>, and the random source.\<close>

record journal =
  entries :: "entry list"
  passphrase :: jsstring
  journalEntries :: "entry list"
  random :: rng

text \<open>
  \<^verbatim>\<open>const addEntry = useCallback(async (entry, encrypt) => {
    let payload = { ...entry };
    if (encrypt) {
      if (!passphrase) throw new Error('Passphrase required for encryption');
      const enc = await encryptText(passphrase, entry.note || '');
      payload = { ...entry, note: undefined, encrypted: true, enc };
    }
    const list = [...entries, payload];
    setEntries(list); storage.set('journalEntries', list);
  }, [entries, passphrase]);\<close>
  The result is the exception thrown, if any, and the state after the call.
\<close>

definition addEntry :: "webcrypto \<Rightarrow> journal \<Rightarrow> entry \<Rightarrow> bool \<Rightarrow> error option \<times> journal" where
  "addEntry W s e encrypt =
     (if encrypt then
        (if passphrase s = [] then (Some (Error ''Passphrase required for encryption''), s)
         else
           (case encryptText W (passphrase s) (case note' e of None \<Rightarrow> [] | Some n \<Rightarrow> n) (random s) of
              (Inl err, r) \<Rightarrow> (Some err, s\<lparr>random := r\<rparr>)
            | (Inr p, r) \<Rightarrow>
                (let payload = e\<lparr>note' := None, encrypted := Some True, enc := Some p\<rparr>;
                     list = entries s @ [payload]
                 in (None, s\<lparr>entries := list, journalEntries := list, random := r\<rparr>))))
      else
        (let payload = e; list = entries s @ [payload]
         in (None, s\<lparr>entries := list, journalEntries := list\<rparr>)))"

text \<open>
  \<^verbatim>\<open>const decryptNote = useCallback(async (entry) => {
    if (!entry.encrypted) return entry.note;
    if (!passphrase) throw new Error('Passphrase required to decrypt');
    try { return await decryptText(passphrase, entry.enc); } catch { return 'Unable to decrypt'; }
  }, [passphrase]);\<close>
\<close>

definition decryptNote :: "webcrypto \<Rightarrow> journal \<Rightarrow> entry \<Rightarrow> error + jsstring option" where
  "decryptNote W s e =
     (if encrypted e \<noteq> Some True then Inr (note' e)
      else if passphrase s = [] then Inl (Error ''Passphrase required to decrypt'')
      else
        (case decryptText W (passphrase s) (enc e) of
           Inr t \<Rightarrow> Inr (Some t)
         | Inl err \<Rightarrow> Inr (Some (js ''Unable to decrypt''))))"

text \<open>
  \<^verbatim>\<open>function EntryBody({ entry, decryptNote }) {
    const [text, setText] = useState(entry.encrypted ? 'Decrypting...' : (entry.note || ''));
    useEffect(()=>{ let mounted = true;
      (async ()=>{ if (entry.encrypted) { const t = await decryptNote(entry); if (mounted) setText(t); } })();
      return ()=>{ mounted = false; }; }, [entry, decryptNote]);
    return <div ...>{text}</div>; }\<close>
  The state of the component is the text it shows. When the component mounts the text
  is the initial value. The effect runs after mounting and again whenever the entry or
  \<^verbatim>\<open>decryptNote\<close> (that is, the passphrase) changes: for an encrypted entry it
  replaces the text by what \<^verbatim>\<open>decryptNote\<close> returns; when
  \<^verbatim>\<open>decryptNote\<close> throws, the promise of the effect is rejected and the text
  stays what it was, as it does for an entry that is not encrypted. \<^verbatim>\<open>EntryBody\<close>
  gives the text after a run of the effect on a component that shows \<open>shown\<close> and is
  still mounted.
\<close>

definition EntryBody_initial :: "entry \<Rightarrow> jsstring" where
  "EntryBody_initial e =
     (if encrypted e = Some True then js ''Decrypting...''
      else (case note' e of None \<Rightarrow> [] | Some n \<Rightarrow> n))"

definition EntryBody :: "webcrypto \<Rightarrow> journal \<Rightarrow> entry \<Rightarrow> jsstring \<Rightarrow> jsstring" where
  "EntryBody W s e shown =
     (if encrypted e = Some True then
        (case decryptNote W s e of
           Inr t \<Rightarrow> (case t of None \<Rightarrow> [] | Some x \<Rightarrow> x)
         | Inl err \<Rightarrow> shown)
      else shown)"

text \<open>
  \<^verbatim>\<open>const save = async () => {
    setSaving(true);
    const payload = { id: Date.now(), date: new Date().toISOString(), mood: mood?.v || null,
      moodLabel: mood?.l, note, tags: tags.split(',').map(t=>t.trim()).filter(Boolean) };
    try { await addEntry(payload, encrypted); setNote(''); setTags(''); setEncrypted(false); setMood(null); }
    finally { setSaving(false); } };\<close>
  of \<^verbatim>\<open>JournalEditor\<close>, the only caller of \<^verbatim>\<open>addEntry\<close>. The clock
  readings, the selected mood (its value and label, if any), the text of the note, the
  list of tags that \<^verbatim>\<open>split\<close>, \<^verbatim>\<open>trim\<close> and \<^verbatim>\<open>filter\<close> give, and the
  state of the encryption checkbox are arguments; the fields of the form are not part of
  the model.
\<close>

definition save_payload ::
  "nat \<Rightarrow> jsstring \<Rightarrow> (nat \<times> jsstring) option \<Rightarrow> jsstring \<Rightarrow> jsstring list \<Rightarrow> entry" where
  "save_payload now stamp selected text_of_note tag_list =
     \<lparr>id' = now, date = stamp,
      mood = (case selected of None \<Rightarrow> None | Some (v, l) \<Rightarrow> if v = 0 then None else Some v),
      moodLabel = (case selected of None \<Rightarrow> None | Some (v, l) \<Rightarrow> Some l),
      note' = Some text_of_note, tags = tag_list, encrypted = None, enc = None\<rparr>"

definition save ::
  "webcrypto \<Rightarrow> journal \<Rightarrow> nat \<Rightarrow> jsstring \<Rightarrow> (nat \<times> jsstring) option \<Rightarrow> jsstring \<Rightarrow>
     jsstring list \<Rightarrow> bool \<Rightarrow> error option \<times> journal" where
  "save W s now stamp selected text_of_note tag_list checkbox =
     addEntry W s (save_payload now stamp selected text_of_note tag_list) checkbox"

text \<open>
  What the user does on the journal page: typing a passphrase
  (\<^verbatim>\<open>onChange={(e)=>setPassphrase(e.target.value)}\<close>) and saving an entry. A
  session starts with \<^verbatim>\<open>useState('')\<close> for the passphrase and, with nothing in
  \<^verbatim>\<open>localStorage\<close>, with no entries.
\<close>

datatype action =
  SetPassphrase jsstring
| Save nat jsstring "(nat \<times> jsstring) option" jsstring "jsstring list" bool

fun step :: "webcrypto \<Rightarrow> journal \<Rightarrow> action \<Rightarrow> journal" where
  "step W s (SetPassphrase pw) = s\<lparr>passphrase := pw\<rparr>"
| "step W s (Save now stamp selected text_of_note tag_list checkbox) =
     snd (save W s now stamp selected text_of_note tag_list checkbox)"

definition run :: "webcrypto \<Rightarrow> journal \<Rightarrow> action list \<Rightarrow> journal" where
  "run W s actions = foldl (step W) s actions"

definition JournalProvider_initial :: "rng \<Rightarrow> journal" where
  "JournalProvider_initial r = \<lparr>entries = [], passphrase = [], journalEntries = [], random = r\<rparr>"

text \<open>
  The two shapes of a stored entry: encrypted, with the payload and no note; or not
  encrypted, with a note and no payload.
\<close>

definition entry_ok :: "entry \<Rightarrow> bool" where
  "entry_ok e \<longleftrightarrow>
     (encrypted e = Some True \<and> note' e = None \<and> enc e \<noteq> None) \<or>
     (encrypted e \<noteq> Some True \<and> note' e \<noteq> None \<and> enc e = None)"

section \<open>The journal route of \<^verbatim>\<open>backend/index.js\<close>\<close>

text \<open>
  A request body is a JSON object: a map from property names to JSON values. The route
  reads nine properties, applies JavaScript's truthiness, and passes them with a fresh id
  to \<^verbatim>\<open>dao.addJournalEntry\<close>. Numbers are integers here: the flag
  \<^verbatim>\<open>encrypted\<close> is 0 or 1.
\<close>

datatype json =
  JNull | JBool bool | JNum int | JStr jsstring | JArray "json list" | JObject "(string \<times> json) list"

definition truthy :: "json option \<Rightarrow> bool" where
  "truthy v =
     (case v of
        None \<Rightarrow> False
      | Some JNull \<Rightarrow> False
      | Some (JBool b) \<Rightarrow> b
      | Some (JNum n) \<Rightarrow> n \<noteq> 0
      | Some (JStr t) \<Rightarrow> t \<noteq> []
      | Some (JArray xs) \<Rightarrow> True
      | Some (JObject ps) \<Rightarrow> True)"

record journal_row =
  row_id :: string
  row_user_id :: "json option"
  row_mood :: "json option"
  row_mood_label :: "json option"
  row_tags :: "json option"
  row_encrypted :: "json option"
  row_ciphertext :: "json option"
  row_iv :: "json option"
  row_salt :: "json option"
  row_attachment_url :: "json option"

datatype response = Status nat string | Inserted journal_row

text \<open>
  \<^verbatim>\<open>app.post('/journal', async (req, res) => {
    const { user_id, mood, mood_label, tags, encrypted = 1, ciphertext, iv, salt, attachment_url } = req.body || {};
    if (!user_id) return res.status(400).json({ error: 'user_id required' });
    if (encrypted && (!ciphertext || !iv || !salt)) return res.status(400).json({ error: 'ciphertext, iv, salt required when encrypted=1' });
    const id = crypto.randomUUID();
    ... await dao.addJournalEntry(conn, { id, user_id, mood, mood_label, tags, encrypted, ciphertext, iv, salt, attachment_url }); ...\<close>
  The result is the error response, or the row handed to the data access object.
\<close>

definition post_journal :: "(string \<Rightarrow> json option) \<Rightarrow> string \<Rightarrow> response" where
  "post_journal body uuid =
     (let encrypted0 = (case body ''encrypted'' of None \<Rightarrow> Some (JNum 1) | Some v \<Rightarrow> Some v)
      in if \<not> truthy (body ''user_id'') then Status 400 ''user_id required''
         else if truthy encrypted0 \<and>
                 (\<not> truthy (body ''ciphertext'') \<or> \<not> truthy (body ''iv'') \<or> \<not> truthy (body ''salt''))
         then Status 400 ''ciphertext, iv, salt required when encrypted=1''
         else Inserted
           \<lparr>row_id = uuid, row_user_id = body ''user_id'', row_mood = body ''mood'',
            row_mood_label = body ''mood_label'', row_tags = body ''tags'',
            row_encrypted = encrypted0, row_ciphertext = body ''ciphertext'',
            row_iv = body ''iv'', row_salt = body ''salt'',
            row_attachment_url = body ''attachment_url''\<rparr>)"

section \<open>Assumptions on the primitives, and an instance\<close>

text \<open>
  What the statements below assume of AES-GCM and PBKDF2, where they assume anything:
  the functional contract of an authenticated cipher, that decrypting under the key and
  nonce of the encryption gives the plaintext back, and the length of a derived key.
\<close>

definition aead_correct :: "webcrypto \<Rightarrow> bool" where
  "aead_correct W \<longleftrightarrow>
     (\<forall>k n pt. aes_gcm_decrypt W k n (aes_gcm_encrypt W k n pt) = Some pt)"

text \<open>PBKDF2 returns as many bits as it is asked for.\<close>

definition kdf_output_length :: "webcrypto \<Rightarrow> bool" where
  "kdf_output_length W \<longleftrightarrow>
     (\<forall>pw slt c len. 8 dvd len \<longrightarrow> length (pbkdf2 W pw slt c len) = len div 8)"

text \<open>
  How PBKDF2 is built from HMAC (RFC 8018, section 5.2, and RFC 2104), over a hash
  function \<open>H\<close> with blocks of 64 bytes and results of 32 bytes, as SHA-256 has: a key
  longer than a block is hashed, and the key is then filled with zero bytes up to the
  length of a block.
\<close>

definition hmac_key :: "(byte list \<Rightarrow> byte list) \<Rightarrow> byte list \<Rightarrow> byte list" where
  "hmac_key H K =
     (let K0 = (if 64 < length K then H K else K) in K0 @ replicate (64 - length K0) 0)"

definition hmac :: "(byte list \<Rightarrow> byte list) \<Rightarrow> byte list \<Rightarrow> byte list \<Rightarrow> byte list" where
  "hmac H K m =
     H (map (\<lambda>b. xor b 0x5C) (hmac_key H K) @ H (map (\<lambda>b. xor b 0x36) (hmac_key H K) @ m))"

definition int32be :: "nat \<Rightarrow> byte list" where
  "int32be i = [of_nat (i div 2 ^ 24), of_nat (i div 2 ^ 16), of_nat (i div 2 ^ 8), of_nat i]"

definition pbkdf2_block :: "(byte list \<Rightarrow> byte list) \<Rightarrow> byte list \<Rightarrow> nat \<Rightarrow> nat \<Rightarrow> byte list" where
  "pbkdf2_block prf S c i =
     (let u1 = prf (S @ int32be i) in fold (\<lambda>j t. map2 xor t ((prf ^^ j) u1)) [1..<c] u1)"

definition pbkdf2_hmac ::
  "(byte list \<Rightarrow> byte list) \<Rightarrow> byte list \<Rightarrow> byte list \<Rightarrow> nat \<Rightarrow> nat \<Rightarrow> byte list" where
  "pbkdf2_hmac H P S c len =
     take (len div 8)
       (concat (map (pbkdf2_block (hmac H P) S c) [1..<Suc ((len div 8 + 31) div 32)]))"

text \<open>
  An instance that meets the contract of the cipher, to run the code on concrete
  inputs: the derived key is the password followed by the salt, and a
  ciphertext is the key and the nonce, framed, followed by the plaintext.
\<close>

definition frame :: "byte list \<Rightarrow> byte list" where
  "frame xs = concat (map (\<lambda>b. [1, b]) xs) @ [0]"

definition demo_crypto :: webcrypto where
  "demo_crypto =
     \<lparr>pbkdf2 = (\<lambda>pw slt iterations len. pw @ slt),
      aes_gcm_encrypt = (\<lambda>k n pt. frame k @ frame n @ pt),
      aes_gcm_decrypt = (\<lambda>k n ct.
         let h = frame k @ frame n
         in if take (length h) ct = h then Some (drop (length h) ct) else None)\<rparr>"

text \<open>
  The same instance with PBKDF2 built from HMAC as above, over a stand-in for the hash
  (the first 32 bytes of the message, filled with zero bytes). It meets both
  assumptions.
\<close>

definition demo_hash :: "byte list \<Rightarrow> byte list" where
  "demo_hash m = take 32 (m @ replicate 32 0)"

definition demo_crypto_hmac :: webcrypto where
  "demo_crypto_hmac = demo_crypto\<lparr>pbkdf2 := pbkdf2_hmac demo_hash\<rparr>"

definition demo_journal :: journal where
  "demo_journal =
     \<lparr>entries = [], passphrase = js ''correct-horse'', journalEntries = [],
      random = (\<lambda>i. of_nat i)\<rparr>"

definition demo_entry :: entry where
  "demo_entry =
     \<lparr>id' = 1, date = js ''2024-01-01T00:00:00.000Z'', mood = None, moodLabel = None,
      note' = Some (js ''Today I felt okay.''), tags = [], encrypted = None, enc = None\<rparr>"

definition demo_body :: "string \<Rightarrow> json option" where
  "demo_body =
     (\<lambda>k. None)
       (''user_id'' := Some (JStr (js ''u1'')), ''ciphertext'' := Some (JStr (js ''AAEC'')),
        ''iv'' := Some (JStr (js ''AAEC'')), ''salt'' := Some (JStr (js ''AAEC'')),
        ''note'' := Some (JStr (js ''Today I felt okay.'')))"

section \<open>Base64: properties\<close>

lemma b64_char_value: "i < 64 \<Longrightarrow> b64_value (b64_char i) = Some i"
  unfolding b64_char_def b64_value_def by (auto split: if_splits)

lemma b64_char_bounds: "i < 64 \<Longrightarrow> 43 \<le> b64_char i \<and> b64_char i \<le> 122 \<and> b64_char i \<noteq> 61"
  unfolding b64_char_def by (auto split: if_splits)

lemma b64_sextets_bound: "\<forall>b \<in> set bs. b < 256 \<Longrightarrow> \<forall>s \<in> set (b64_sextets bs). s < 64"
  by (induction bs rule: b64_sextets.induct) auto

lemma b64_decode_sextets: "\<forall>b \<in> set bs. b < 256 \<Longrightarrow> b64_decode (b64_sextets bs) = bs"
  by (induction bs rule: b64_sextets.induct) auto

lemma length_b64_encode: "length (b64_encode bs) mod 4 = 0"
  by (induction bs rule: b64_encode.induct) auto

lemma length_b64_sextets: "length (b64_sextets bs) mod 4 \<noteq> 1"
  by (induction bs rule: b64_sextets.induct) auto

lemma b64_encode_Nil: "b64_encode bs = [] \<longleftrightarrow> bs = []"
  by (induction bs rule: b64_encode.induct) auto

lemma strip_padding_Cons4:
  assumes "length ys mod 4 = 0" and "ys \<noteq> []"
  shows "strip_padding (a # b # c # d # ys) = a # b # c # d # strip_padding ys"
proof -
  from assms have "4 dvd length ys" "0 < length ys" by auto
  then have "2 \<le> length ys" by (auto dest: dvd_imp_le)
  then have "butlast ys \<noteq> []" by (cases ys rule: rev_cases) auto
  with assms show ?thesis by (simp add: strip_padding_def Let_def)
qed

lemma strip_padding_encode:
  "\<forall>b \<in> set bs. b < 256 \<Longrightarrow> strip_padding (b64_encode bs) = map b64_char (b64_sextets bs)"
proof (induction bs rule: b64_encode.induct)
  case (1 a b c rest)
  show ?case
  proof (cases "rest = []")
    case True
    have "c mod 64 < 64" by simp
    then have "b64_char (c mod 64) \<noteq> 61" using b64_char_bounds by blast
    with True show ?thesis by (simp add: strip_padding_def)
  next
    case False
    then have "b64_encode rest \<noteq> []" by (simp add: b64_encode_Nil)
    with 1 show ?thesis by (simp add: strip_padding_Cons4 length_b64_encode)
  qed
next
  case (2 a b)
  have "(b mod 16) * 4 < 64" by simp
  then have "b64_char ((b mod 16) * 4) \<noteq> 61" using b64_char_bounds by blast
  then show ?case by (simp add: strip_padding_def)
next
  case (3 a)
  have "(a mod 4) * 16 < 64" by simp
  then have "b64_char ((a mod 4) * 16) \<noteq> 61" using b64_char_bounds by blast
  then show ?case by (simp add: strip_padding_def)
next
  case 4
  show ?case by (simp add: strip_padding_def)
qed

lemma b64_encode_chars:
  "\<forall>b \<in> set bs. b < 256 \<Longrightarrow> \<forall>c \<in> set (b64_encode bs). 43 \<le> c \<and> c \<le> 122"
proof (induction bs rule: b64_encode.induct)
  case (1 a b c rest)
  have "a div 4 < 64" "(a mod 4) * 16 + b div 16 < 64" "(b mod 16) * 4 + c div 64 < 64" "c mod 64 < 64"
    using 1(2) by auto
  with 1 b64_char_bounds show ?case by auto
next
  case (2 a b)
  have "a div 4 < 64" "(a mod 4) * 16 + b div 16 < 64" "(b mod 16) * 4 < 64"
    using 2 by auto
  with b64_char_bounds show ?case by auto
next
  case (3 a)
  have "a div 4 < 64" "(a mod 4) * 16 < 64" using 3 by auto
  with b64_char_bounds show ?case by auto
qed simp

lemma unat_byte_less: "unat (b :: byte) < 256"
  using unsigned_less [of b, where 'a = nat] by simp

lemma unat_ucast_byte: "unat (ucast (b :: byte) :: 16 word) = unat b"
proof -
  have "unat b < 2 ^ 16" using unat_byte_less [of b] by simp
  then show ?thesis by (simp add: unsigned_ucast_eq take_bit_nat_eq_self)
qed

lemma map_unat_of_nat16:
  "\<forall>c \<in> set cs. c < 65536 \<Longrightarrow> map unat (map of_nat cs :: 16 word list) = cs"
  by (induction cs) (auto simp: unat_of_nat)

lemma ucast_ucast_byte: "(ucast (ucast (b :: byte) :: 16 word) :: byte) = b"
  by (simp add: ucast_up_ucast_id is_up)

lemma bufToB64_eq: "bufToB64 buf = Inr (b64_text buf)"
proof -
  have "\<not> 255 < unat c" if "c \<in> set (map ucast buf :: 16 word list)" for c
  proof -
    from that obtain b :: byte where "c = ucast b" by auto
    with unat_byte_less [of b] show ?thesis by (simp add: unat_ucast_byte)
  qed
  then show ?thesis
    by (auto simp add: bufToB64_def btoa_def b64_text_def comp_def unat_ucast_byte)
qed

lemma atob_encode:
  assumes "\<forall>b \<in> set bs. b < 256"
  shows "atob (map of_nat (b64_encode bs)) = Inr (map of_nat bs)"
proof -
  let ?cs = "b64_encode bs"
  from assms have chars: "\<forall>c \<in> set ?cs. 43 \<le> c \<and> c \<le> 122" by (rule b64_encode_chars)
  then have "\<forall>c \<in> set ?cs. c < 65536" by auto
  then have u: "map unat (map of_nat ?cs :: 16 word list) = ?cs" by (rule map_unat_of_nat16)
  from chars have f: "filter (\<lambda>c. \<not> ascii_whitespace c) ?cs = ?cs"
    by (auto simp: ascii_whitespace_def filter_id_conv)
  have s: "strip_padding ?cs = map b64_char (b64_sextets bs)"
    using assms by (rule strip_padding_encode)
  have v: "b64_value (b64_char i) = Some i" if "i \<in> set (b64_sextets bs)" for i
    using that b64_sextets_bound [OF assms] by (simp add: b64_char_value)
  then have m: "map ((\<lambda>c. the (b64_value c)) \<circ> b64_char) (b64_sextets bs) = b64_sextets bs"
    by (simp add: map_idI)
  have n: "\<not> (\<exists>c \<in> set (map b64_char (b64_sextets bs)). b64_value c = None)"
    using v by auto
  have l: "length (map b64_char (b64_sextets bs)) mod 4 \<noteq> 1"
    using length_b64_sextets [of bs] by simp
  show ?thesis
    unfolding atob_def u f Let_def
    using l n by (simp add: length_b64_encode s m b64_decode_sextets [OF assms])
qed

lemma b64ToBuf_text: "b64ToBuf (b64_text buf) = Inr buf"
proof -
  have "\<forall>b \<in> set (map unat buf). b < 256" using unat_byte_less by auto
  then have "atob (map of_nat (b64_encode (map unat buf))) = Inr (map of_nat (map unat buf))"
    by (rule atob_encode)
  then show ?thesis
    by (simp add: b64ToBuf_def b64_text_def comp_def ucast_ucast_byte)
qed

lemma b64_text_inj: "b64_text a = b64_text b \<Longrightarrow> a = b"
  by (metis b64ToBuf_text sum.inject(2))

text \<open>What \<^verbatim>\<open>atob\<close> rejects.\<close>

lemma butlast_keeps:
  "x \<in> set xs \<Longrightarrow> last xs = (61::nat) \<Longrightarrow> x \<noteq> 61 \<Longrightarrow> x \<in> set (butlast xs)"
  by (cases xs rule: rev_cases) auto

lemma strip_padding_keeps:
  assumes "x \<in> set d" and "x \<noteq> 61"
  shows "x \<in> set (strip_padding d)"
proof (cases "d \<noteq> [] \<and> last d = 61")
  case False
  with assms show ?thesis by (auto simp add: strip_padding_def)
next
  case True
  with assms have 1: "x \<in> set (butlast d)" by (simp add: butlast_keeps)
  show ?thesis
  proof (cases "butlast d \<noteq> [] \<and> last (butlast d) = 61")
    case False
    with True 1 show ?thesis by (auto simp add: strip_padding_def Let_def)
  next
    case b: True
    with 1 assms(2) have "x \<in> set (butlast (butlast d))" by (simp add: butlast_keeps)
    with True b show ?thesis by (simp add: strip_padding_def Let_def)
  qed
qed

lemma atob_wrong_alphabet:
  assumes "c \<in> set s" and "b64_value (unat c) = None" and "unat c \<noteq> 61"
    and "\<not> ascii_whitespace (unat c)"
  shows "atob s = Inl InvalidCharacterError"
proof -
  let ?d = "filter (\<lambda>c. \<not> ascii_whitespace c) (map unat s)"
  from assms have "unat c \<in> set ?d" by auto
  then have "unat c \<in> set (strip_padding ?d)" using assms(3) by (rule strip_padding_keeps)
  with assms(2) \<open>unat c \<in> set ?d\<close> show ?thesis
    by (auto simp: atob_def Let_def)
qed

lemma atob_stray_padding:
  assumes "c \<in> set s" and "unat c = 61"
    and "length (filter (\<lambda>c. \<not> ascii_whitespace c) (map unat s)) mod 4 \<noteq> 0"
  shows "atob s = Inl InvalidCharacterError"
proof -
  let ?d = "filter (\<lambda>c. \<not> ascii_whitespace c) (map unat s)"
  from assms(1,2) have "61 \<in> set ?d" by (force simp: ascii_whitespace_def)
  moreover have "b64_value 61 = None" by (simp add: b64_value_def)
  ultimately show ?thesis using assms(3) by (auto simp: atob_def Let_def)
qed

text \<open>
  What \<^verbatim>\<open>atob\<close> accepts, exactly: after removing ASCII whitespace, characters of the
  base64 alphabet, their number not one more than a multiple of four, or such characters
  followed by one or two \<open>=\<close> that fill the text up to a multiple of four.
\<close>

lemma strip_padding_body:
  assumes "\<forall>c \<in> set body. b64_value c \<noteq> None"
  shows "strip_padding body = body" and "strip_padding (body @ [61]) = body"
    and "strip_padding (body @ [61, 61]) = body"
proof -
  have "b64_value 61 = None" by (simp add: b64_value_def)
  with assms have n: "61 \<notin> set body" by blast
  then have l: "body \<noteq> [] \<Longrightarrow> last body \<noteq> 61" using last_in_set by metis
  then show "strip_padding body = body" by (auto simp: strip_padding_def)
  from l show "strip_padding (body @ [61]) = body" by (auto simp: strip_padding_def Let_def)
  have "butlast (body @ [61, 61]) = body @ [61]" by (simp add: butlast_append)
  then show "strip_padding (body @ [61, 61]) = body" by (simp add: strip_padding_def Let_def)
qed

lemma strip_padding_split:
  "\<exists>pad. d = strip_padding d @ pad \<and> (pad = [] \<or> pad = [61] \<or> pad = [61, 61])"
proof (cases "d \<noteq> [] \<and> last d = 61")
  case False
  then show ?thesis by (auto simp: strip_padding_def)
next
  case True
  then have 1: "d = butlast d @ [61]" using append_butlast_last_id by metis
  show ?thesis
  proof (cases "butlast d \<noteq> [] \<and> last (butlast d) = 61")
    case False
    with True have "strip_padding d = butlast d" by (auto simp: strip_padding_def Let_def)
    with 1 show ?thesis by metis
  next
    case b: True
    then have 2: "butlast d = butlast (butlast d) @ [61]" using append_butlast_last_id by metis
    from True b have "strip_padding d = butlast (butlast d)" by (simp add: strip_padding_def Let_def)
    moreover from 1 2 have "d = butlast (butlast d) @ [61, 61]" by (metis append.assoc append_Cons append_Nil)
    ultimately show ?thesis by metis
  qed
qed

lemma atob_accepts:
  assumes "filter (\<lambda>c. \<not> ascii_whitespace c) (map unat s) = body @ pad"
    and "\<forall>c \<in> set body. b64_value c \<noteq> None"
    and "pad = [] \<and> length body mod 4 \<noteq> 1 \<or>
         (pad = [61] \<or> pad = [61, 61]) \<and> length (body @ pad) mod 4 = 0"
  shows "atob s = Inr (map of_nat (b64_decode (map (\<lambda>c. the (b64_value c)) body)))"
proof -
  let ?d = "filter (\<lambda>c. \<not> ascii_whitespace c) (map unat s)"
  have l: "length body mod 4 \<noteq> 1"
  proof
    assume b: "length body mod 4 = 1"
    then have s1: "Suc (length body) mod 4 = 2" by (simp add: mod_Suc)
    then have s2: "Suc (Suc (length body)) mod 4 = 3" by (simp add: mod_Suc)
    from b s1 s2 assms(3) show False by auto
  qed
  have d: "(if length ?d mod 4 = 0 then strip_padding ?d else ?d) = body"
  proof (cases "pad = []")
    case True
    with assms(1) strip_padding_body(1) [OF assms(2)] show ?thesis by simp
  next
    case False
    with assms(3) have "length ?d mod 4 = 0" and "pad = [61] \<or> pad = [61, 61]"
      using assms(1) by auto
    with assms(1) strip_padding_body(2,3) [OF assms(2)] show ?thesis by auto
  qed
  have a: "\<not> (\<exists>c \<in> set body. b64_value c = None)" using assms(2) by blast
  show ?thesis unfolding atob_def Let_def d using l a by simp
qed

lemma atob_rejects:
  assumes "atob s \<noteq> Inl InvalidCharacterError"
  shows "\<exists>body pad.
       filter (\<lambda>c. \<not> ascii_whitespace c) (map unat s) = body @ pad \<and>
       (\<forall>c \<in> set body. b64_value c \<noteq> None) \<and>
       (pad = [] \<and> length body mod 4 \<noteq> 1 \<or>
        (pad = [61] \<or> pad = [61, 61]) \<and> length (body @ pad) mod 4 = 0)"
proof -
  let ?d = "filter (\<lambda>c. \<not> ascii_whitespace c) (map unat s)"
  let ?e = "if length ?d mod 4 = 0 then strip_padding ?d else ?d"
  from assms have l: "length ?e mod 4 \<noteq> 1" and a: "\<forall>c \<in> set ?e. b64_value c \<noteq> None"
    by (auto simp: atob_def Let_def split: if_splits)
  show ?thesis
  proof (cases "length ?d mod 4 = 0")
    case False
    with l a have "?d = ?d @ [] \<and> (\<forall>c \<in> set ?d. b64_value c \<noteq> None) \<and> length ?d mod 4 \<noteq> 1"
      by simp
    then show ?thesis by blast
  next
    case True
    obtain pad where p: "?d = strip_padding ?d @ pad" "pad = [] \<or> pad = [61] \<or> pad = [61, 61]"
      using strip_padding_split by blast
    from True have m: "length (strip_padding ?d @ pad) mod 4 = 0"
      by (simp only: p(1) [symmetric])
    from True l a have "(\<forall>c \<in> set (strip_padding ?d). b64_value c \<noteq> None) \<and>
        length (strip_padding ?d) mod 4 \<noteq> 1"
      by simp
    with p(2) m have "?d = strip_padding ?d @ pad \<and>
        (\<forall>c \<in> set (strip_padding ?d). b64_value c \<noteq> None) \<and>
        (pad = [] \<and> length (strip_padding ?d) mod 4 \<noteq> 1 \<or>
         (pad = [61] \<or> pad = [61, 61]) \<and> length (strip_padding ?d @ pad) mod 4 = 0)"
      using p(1) by blast
    then show ?thesis by (intro exI)
  qed
qed

lemma ucast_of_nat_byte: "(ucast (of_nat n :: 16 word) :: byte) = of_nat n"
  by (simp add: unsigned_of_nat word_of_nat_eq_iff)

section \<open>Text: properties\<close>

lemma mod_plus_mult: "(x::nat) < m \<Longrightarrow> (k * m + x) mod m = x"
  by simp

lemma lead_mod:
  "a < 32 \<Longrightarrow> (192 + a) mod 32 = (a::nat)"
  "a < 16 \<Longrightarrow> (224 + a) mod 16 = (a::nat)"
  "a < 8 \<Longrightarrow> (240 + a) mod 8 = (a::nat)"
  "a < 64 \<Longrightarrow> (128 + a) mod 64 = (a::nat)"
  using mod_plus_mult [of a 32 6] mod_plus_mult [of a 16 14] mod_plus_mult [of a 8 30]
    mod_plus_mult [of a 64 2] by simp_all

lemma split2: "(cp::nat) = (cp div 64) * 64 + cp mod 64"
  by simp

lemma split3: "(cp::nat) = ((cp div 4096) * 64 + cp div 64 mod 64) * 64 + cp mod 64"
proof -
  have "cp div 4096 = cp div 64 div 64" by (simp add: div_mult2_eq)
  then show ?thesis by simp
qed

lemma split4:
  "(cp::nat) = (((cp div 262144) * 64 + cp div 4096 mod 64) * 64 + cp div 64 mod 64) * 64 + cp mod 64"
proof -
  have 1: "cp div 4096 = cp div 64 div 64" by (simp add: div_mult2_eq)
  have 2: "cp div 262144 = cp div 64 div 64 div 64" by (simp add: div_mult2_eq)
  show ?thesis unfolding 1 2 by simp
qed

lemma utf8_lead_2: "2 \<le> a \<Longrightarrow> a < 32 \<Longrightarrow>
  utf8_lead (0xC0 + a) =
    ([], \<lparr>code_point = a, bytes_seen = 0, bytes_needed = 1,
          lower_boundary = 0x80, upper_boundary = 0xBF\<rparr>)"
  by (simp add: utf8_lead_def utf8_initial_def lead_mod)

lemma utf8_lead_3: "a < 16 \<Longrightarrow>
  utf8_lead (0xE0 + a) =
    ([], \<lparr>code_point = a, bytes_seen = 0, bytes_needed = 2,
          lower_boundary = (if a = 0 then 0xA0 else 0x80),
          upper_boundary = (if a = 13 then 0x9F else 0xBF)\<rparr>)"
  by (simp add: utf8_lead_def utf8_initial_def lead_mod)

lemma utf8_lead_4: "a < 5 \<Longrightarrow>
  utf8_lead (0xF0 + a) =
    ([], \<lparr>code_point = a, bytes_seen = 0, bytes_needed = 3,
          lower_boundary = (if a = 0 then 0x90 else 0x80),
          upper_boundary = (if a = 4 then 0x8F else 0xBF)\<rparr>)"
  by (simp add: utf8_lead_def utf8_initial_def lead_mod)

lemma utf8_continue_last:
  assumes "b < 64" and "bytes_needed st = Suc (bytes_seen st)"
    and "lower_boundary st \<le> 0x80 + b" and "0x80 + b \<le> upper_boundary st"
  shows "utf8_decode st ((0x80 + b) # bs) = (code_point st * 64 + b) # utf8_decode utf8_initial bs"
  using assms by (simp add: lead_mod)

lemma utf8_continue_more:
  assumes "b < 64" and "bytes_needed st \<noteq> 0" and "bytes_needed st \<noteq> Suc (bytes_seen st)"
    and "lower_boundary st \<le> 0x80 + b" and "0x80 + b \<le> upper_boundary st"
  shows "utf8_decode st ((0x80 + b) # bs) =
     utf8_decode (st\<lparr>lower_boundary := 0x80, upper_boundary := 0xBF,
                      code_point := code_point st * 64 + b,
                      bytes_seen := bytes_seen st + 1\<rparr>) bs"
  using assms by (simp add: lead_mod)

lemma bytes_needed_initial: "bytes_needed utf8_initial = 0"
  by (simp add: utf8_initial_def)

lemma utf8_decode_bytes_1:
  "a < 0x80 \<Longrightarrow> utf8_decode utf8_initial (a # rest) = a # utf8_decode utf8_initial rest"
  by (simp add: bytes_needed_initial utf8_lead_def)

lemma utf8_decode_bytes_2:
  assumes "2 \<le> a" "a < 32" "b < 64"
  shows "utf8_decode utf8_initial ((0xC0 + a) # (0x80 + b) # rest) =
    (a * 64 + b) # utf8_decode utf8_initial rest"
proof -
  have "utf8_decode utf8_initial ((0xC0 + a) # (0x80 + b) # rest) =
      utf8_decode \<lparr>code_point = a, bytes_seen = 0, bytes_needed = 1,
          lower_boundary = 0x80, upper_boundary = 0xBF\<rparr> ((0x80 + b) # rest)"
    using assms by (simp add: bytes_needed_initial utf8_lead_2 del: utf8_decode.simps(2)
        add: utf8_decode.simps(2) [of utf8_initial])
  also have "\<dots> = (a * 64 + b) # utf8_decode utf8_initial rest"
    using assms by (subst utf8_continue_last) (auto simp del: utf8_decode.simps)
  finally show ?thesis .
qed

lemma utf8_decode_bytes_3:
  assumes "a < 16" "b < 64" "c < 64" "a = 0 \<longrightarrow> 32 \<le> b" "a = 13 \<longrightarrow> b < 32"
  shows "utf8_decode utf8_initial ((0xE0 + a) # (0x80 + b) # (0x80 + c) # rest) =
    ((a * 64 + b) * 64 + c) # utf8_decode utf8_initial rest"
proof -
  let ?s1 = "\<lparr>code_point = a, bytes_seen = 0, bytes_needed = 2,
          lower_boundary = (if a = 0 then 0xA0 else 0x80),
          upper_boundary = (if a = 13 then 0x9F else 0xBF)\<rparr>"
  let ?s2 = "\<lparr>code_point = a * 64 + b, bytes_seen = 1, bytes_needed = 2,
          lower_boundary = 0x80, upper_boundary = 0xBF\<rparr>"
  have "utf8_decode utf8_initial ((0xE0 + a) # (0x80 + b) # (0x80 + c) # rest) =
      utf8_decode ?s1 ((0x80 + b) # (0x80 + c) # rest)"
    using assms by (simp add: bytes_needed_initial utf8_lead_3 del: utf8_decode.simps(2)
        add: utf8_decode.simps(2) [of utf8_initial])
  also have "\<dots> = utf8_decode ?s2 ((0x80 + c) # rest)"
    using assms by (subst utf8_continue_more) (auto simp del: utf8_decode.simps)
  also have "\<dots> = ((a * 64 + b) * 64 + c) # utf8_decode utf8_initial rest"
    using assms by (subst utf8_continue_last) (auto simp del: utf8_decode.simps)
  finally show ?thesis .
qed

lemma utf8_decode_bytes_4:
  assumes "a < 5" "b < 64" "c < 64" "d < 64" "a = 0 \<longrightarrow> 16 \<le> b" "a = 4 \<longrightarrow> b < 16"
  shows "utf8_decode utf8_initial ((0xF0 + a) # (0x80 + b) # (0x80 + c) # (0x80 + d) # rest) =
    (((a * 64 + b) * 64 + c) * 64 + d) # utf8_decode utf8_initial rest"
proof -
  let ?s1 = "\<lparr>code_point = a, bytes_seen = 0, bytes_needed = 3,
          lower_boundary = (if a = 0 then 0x90 else 0x80),
          upper_boundary = (if a = 4 then 0x8F else 0xBF)\<rparr>"
  let ?s2 = "\<lparr>code_point = a * 64 + b, bytes_seen = 1, bytes_needed = 3,
          lower_boundary = 0x80, upper_boundary = 0xBF\<rparr>"
  let ?s3 = "\<lparr>code_point = (a * 64 + b) * 64 + c, bytes_seen = Suc (Suc 0), bytes_needed = 3,
          lower_boundary = 0x80, upper_boundary = 0xBF\<rparr>"
  have "utf8_decode utf8_initial ((0xF0 + a) # (0x80 + b) # (0x80 + c) # (0x80 + d) # rest) =
      utf8_decode ?s1 ((0x80 + b) # (0x80 + c) # (0x80 + d) # rest)"
    using assms by (simp add: bytes_needed_initial utf8_lead_4 del: utf8_decode.simps(2)
        add: utf8_decode.simps(2) [of utf8_initial])
  also have "\<dots> = utf8_decode ?s2 ((0x80 + c) # (0x80 + d) # rest)"
    using assms by (subst utf8_continue_more) (auto simp del: utf8_decode.simps)
  also have "\<dots> = utf8_decode ?s3 ((0x80 + d) # rest)"
    using assms by (subst utf8_continue_more) (auto simp del: utf8_decode.simps)
  also have "\<dots> = (((a * 64 + b) * 64 + c) * 64 + d) # utf8_decode utf8_initial rest"
    using assms by (subst utf8_continue_last) (auto simp del: utf8_decode.simps)
  finally show ?thesis .
qed

lemma utf8_roundtrip_cp:
  assumes "scalar cp"
  shows "utf8_decode utf8_initial (utf8_encode cp @ rest) = cp # utf8_decode utf8_initial rest"
proof -
  consider "cp < 0x80" | "0x80 \<le> cp" "cp < 0x800" | "0x800 \<le> cp" "cp < 0x10000"
    | "0x10000 \<le> cp" by linarith
  then show ?thesis
  proof cases
    case 1
    then show ?thesis by (simp add: utf8_encode_def utf8_decode_bytes_1 del: utf8_decode.simps)
  next
    case 2
    define a where "a = cp div 64"
    define b where "b = cp mod 64"
    have cp: "cp = a * 64 + b" by (simp add: a_def b_def)
    have ab: "2 \<le> a" "a < 32" "b < 64" using 2 by (simp_all add: a_def b_def)
    have "utf8_encode cp = [0xC0 + a, 0x80 + b]"
      using 2 by (simp add: utf8_encode_def a_def b_def)
    with ab show ?thesis by (simp only: append_Cons append_Nil utf8_decode_bytes_2 cp [symmetric])
  next
    case 3
    define a where "a = cp div 4096"
    define b where "b = cp div 64 mod 64"
    define c where "c = cp mod 64"
    have cp: "cp = (a * 64 + b) * 64 + c" unfolding a_def b_def c_def by (rule split3)
    have abc: "a < 16" "b < 64" "c < 64" using 3 by (simp_all add: a_def b_def c_def)
    have lo: "a = 0 \<longrightarrow> 32 \<le> b"
    proof
      assume "a = 0"
      with cp have "cp = b * 64 + c" by simp
      with 3(1) abc show "32 \<le> b" by linarith
    qed
    have hi: "a = 13 \<longrightarrow> b < 32"
    proof
      assume "a = 13"
      with cp have "cp = 53248 + b * 64 + c" by simp
      with assms abc show "b < 32" unfolding scalar_def by linarith
    qed
    have "utf8_encode cp = [0xE0 + a, 0x80 + b, 0x80 + c]"
      using 3 by (simp add: utf8_encode_def a_def b_def c_def)
    with abc lo hi show ?thesis by (simp only: append_Cons append_Nil utf8_decode_bytes_3 cp [symmetric])
  next
    case 4
    define a where "a = cp div 262144"
    define b where "b = cp div 4096 mod 64"
    define c where "c = cp div 64 mod 64"
    define d where "d = cp mod 64"
    have cp: "cp = ((a * 64 + b) * 64 + c) * 64 + d" unfolding a_def b_def c_def d_def by (rule split4)
    have lt: "cp < 0x110000" using assms by (simp add: scalar_def)
    have abc: "a < 5" "b < 64" "c < 64" "d < 64" using lt by (simp_all add: a_def b_def c_def d_def)
    have lo: "a = 0 \<longrightarrow> 16 \<le> b"
    proof
      assume "a = 0"
      with cp have "cp = b * 4096 + c * 64 + d" by simp
      with 4 abc show "16 \<le> b" by linarith
    qed
    have hi: "a = 4 \<longrightarrow> b < 16"
    proof
      assume "a = 4"
      with cp have "cp = 1048576 + b * 4096 + c * 64 + d" by simp
      with lt abc show "b < 16" by linarith
    qed
    have "utf8_encode cp = [0xF0 + a, 0x80 + b, 0x80 + c, 0x80 + d]"
      using 4 by (simp add: utf8_encode_def a_def b_def c_def d_def)
    with abc lo hi show ?thesis by (simp only: append_Cons append_Nil utf8_decode_bytes_4 cp [symmetric])
  qed
qed

lemma utf8_roundtrip:
  "\<forall>cp \<in> set cps. scalar cp \<Longrightarrow> utf8_decode utf8_initial (concat (map utf8_encode cps)) = cps"
proof (induction cps)
  case Nil
  show ?case by (simp add: bytes_needed_initial)
next
  case (Cons cp cps)
  then show ?case by (simp add: utf8_roundtrip_cp del: utf8_decode.simps)
qed

lemma utf8_encode_bytes: "cp < 0x110000 \<Longrightarrow> \<forall>b \<in> set (utf8_encode cp). b < 256"
proof -
  assume lt: "cp < 0x110000"
  have m: "cp mod 64 < 64" "cp div 64 mod 64 < 64" "cp div 4096 mod 64 < 64" by simp_all
  have 1: "cp < 0x800 \<Longrightarrow> cp div 64 < 32" by simp
  have 2: "cp < 0x10000 \<Longrightarrow> cp div 4096 < 16" by simp
  have 3: "cp div 262144 < 5" using lt by simp
  show ?thesis
    unfolding utf8_encode_def using m 1 2 3 by auto
qed

lemma utf16_decode_scalar:
  "\<forall>u \<in> set us. u < 0x10000 \<Longrightarrow> \<forall>cp \<in> set (utf16_decode us). scalar cp"
proof (induction us rule: utf16_decode.induct)
  case (1 u v rest)
  have pair: "scalar (0x10000 + (u - 0xD800) * 0x400 + (v - 0xDC00))"
    if "0xD800 \<le> u" "u \<le> 0xDBFF" "0xDC00 \<le> v" "v \<le> 0xDFFF"
    using that unfolding scalar_def by linarith
  have rep: "scalar 0xFFFD" by (simp add: scalar_def)
  have self: "scalar u" if "\<not> (0xD800 \<le> u \<and> u \<le> 0xDBFF)" "\<not> (0xDC00 \<le> u \<and> u \<le> 0xDFFF)"
    using that 1(5) unfolding scalar_def by auto
  show ?case
  proof (cases "0xD800 \<le> u \<and> u \<le> 0xDBFF")
    case True
    show ?thesis
    proof (cases "0xDC00 \<le> v \<and> v \<le> 0xDFFF")
      case v: True
      with True 1(1) 1(5) pair show ?thesis by auto
    next
      case v: False
      with True 1(2) 1(5) rep show ?thesis by auto
    qed
  next
    case False
    show ?thesis
    proof (cases "0xDC00 \<le> u \<and> u \<le> 0xDFFF")
      case l: True
      with False 1(3) 1(5) rep show ?thesis by auto
    next
      case l: False
      with False 1(4) 1(5) self show ?thesis by auto
    qed
  qed
next
  case (2 u)
  then show ?case by (auto simp: scalar_def)
next
  case 3
  show ?case by simp
qed

lemma utf16_roundtrip:
  "well_formed us \<Longrightarrow> \<forall>u \<in> set us. u < 0x10000 \<Longrightarrow>
     concat (map utf16_encode (utf16_decode us)) = us"
proof (induction us rule: utf16_decode.induct)
  case (1 u v rest)
  show ?case
  proof (cases "0xD800 \<le> u \<and> u \<le> 0xDBFF")
    case True
    with 1(5) have v: "0xDC00 \<le> v \<and> v \<le> 0xDFFF" and wf: "well_formed rest" by simp_all
    define x where "x = u - 0xD800"
    define y where "y = v - 0xDC00"
    have u: "u = 0xD800 + x" and v': "v = 0xDC00 + y" and xy: "x < 0x400" "y < 0x400"
      using True v by (auto simp: x_def y_def)
    have "utf16_encode (0x10000 + x * 0x400 + y) = [0xD800 + x, 0xDC00 + y]"
      using xy by (simp add: utf16_encode_def)
    moreover have "utf16_decode (u # v # rest) = (0x10000 + x * 0x400 + y) # utf16_decode rest"
      using True v by (simp add: x_def y_def)
    ultimately show ?thesis using 1(1) 1(6) True v wf by (simp add: u v')
  next
    case False
    with 1(5) have nl: "\<not> (0xDC00 \<le> u \<and> u \<le> 0xDFFF)" and wf: "well_formed (v # rest)"
      by (simp_all split: if_splits)
    have e: "utf16_encode u = [u]" using 1(6) by (simp add: utf16_encode_def)
    have d: "utf16_decode (u # v # rest) = u # utf16_decode (v # rest)"
      using False nl by auto
    have "concat (map utf16_encode (utf16_decode (v # rest))) = v # rest"
      using False nl wf 1(4) 1(6) by auto
    with e d show ?thesis by (simp del: utf16_decode.simps)
  qed
next
  case (2 u)
  then show ?case by (simp add: utf16_encode_def)
next
  case 3
  show ?case by simp
qed

lemma utf16_decode_hd:
  "well_formed us \<Longrightarrow> us \<noteq> [] \<Longrightarrow> hd us \<noteq> 0xFEFF \<Longrightarrow>
     utf16_decode us \<noteq> [] \<and> hd (utf16_decode us) \<noteq> 0xFEFF"
  by (induction us rule: utf16_decode.induct) (auto split: if_splits)

lemma drop_bom_id: "cps = [] \<or> hd cps \<noteq> 0xFEFF \<Longrightarrow> drop_bom cps = cps"
  by (cases cps) (auto simp: drop_bom_def)

lemma unat16_less: "unat (c :: 16 word) < 65536"
  using unsigned_less [of c, where 'a = nat] by simp

lemma map_unat_of_nat8:
  "\<forall>b \<in> set bs. b < 256 \<Longrightarrow> map unat (map of_nat bs :: byte list) = bs"
  by (induction bs) (auto simp: unat_of_nat)

lemma decode_strToBuf:
  "utf8_decode utf8_initial (map unat (strToBuf p)) = utf16_decode (map unat p)"
proof -
  let ?cps = "utf16_decode (map unat p)"
  have "\<forall>u \<in> set (map unat p). u < 0x10000" using unat16_less by auto
  then have sc: "\<forall>cp \<in> set ?cps. scalar cp" by (rule utf16_decode_scalar)
  then have "\<forall>b \<in> set (concat (map utf8_encode ?cps)). b < 256"
    using utf8_encode_bytes by (auto simp: scalar_def)
  then have "map unat (map of_nat (concat (map utf8_encode ?cps)) :: byte list) =
      concat (map utf8_encode ?cps)" by (rule map_unat_of_nat8)
  with utf8_roundtrip [OF sc] show ?thesis
    by (simp only: strToBuf_def TextEncoder_encode_def)
qed

lemma text_decoded:
  "bufToStr (strToBuf p) =
     map of_nat (concat (map utf16_encode (drop_bom (utf16_decode (map unat p)))))"
  by (simp only: bufToStr_def TextDecoder_decode_def decode_strToBuf)

lemma strToBuf_inj:
  assumes "well_formed (map unat p)" and "well_formed (map unat q)"
    and "strToBuf p = strToBuf q"
  shows "p = q"
proof -
  have units: "map unat x = concat (map utf16_encode (utf16_decode (map unat x)))"
    if "well_formed (map unat x)" for x :: jsstring
  proof -
    have "\<forall>u \<in> set (map unat x). u < 0x10000" using unat16_less by auto
    with that show ?thesis by (simp only: utf16_roundtrip)
  qed
  from assms(3) have "utf16_decode (map unat p) = utf16_decode (map unat q)"
    by (simp only: decode_strToBuf [symmetric])
  with units [OF assms(1)] units [OF assms(2)] have "map unat p = map unat q" by simp
  then have "map of_nat (map unat p) = (map of_nat (map unat q) :: jsstring)" by simp
  then show ?thesis by (simp add: comp_def)
qed

lemma text_roundtrip:
  assumes "well_formed (map unat p)" and "p = [] \<or> hd p \<noteq> 0xFEFF"
  shows "bufToStr (strToBuf p) = p"
proof -
  let ?us = "map unat p"
  have b: "\<forall>u \<in> set ?us. u < 0x10000" using unat16_less by auto
  have "utf16_decode ?us = [] \<or> hd (utf16_decode ?us) \<noteq> 0xFEFF"
  proof (cases "p = []")
    case True
    then show ?thesis by simp
  next
    case False
    with assms(2) have "hd p \<noteq> 0xFEFF" by simp
    moreover have "hd p = 0xFEFF" if "unat (hd p) = 0xFEFF"
    proof -
      from that have "(of_nat (unat (hd p)) :: 16 word) = of_nat 0xFEFF" by (rule arg_cong)
      then show ?thesis by simp
    qed
    ultimately have "unat (hd p) \<noteq> 0xFEFF" by blast
    with False have "?us \<noteq> []" "hd ?us \<noteq> 0xFEFF" by (simp_all add: hd_map)
    with assms(1) show ?thesis using utf16_decode_hd by blast
  qed
  then have "drop_bom (utf16_decode ?us) = utf16_decode ?us" by (rule drop_bom_id)
  moreover have "concat (map utf16_encode (utf16_decode ?us)) = ?us"
    using assms(1) b by (rule utf16_roundtrip)
  ultimately show ?thesis by (simp add: text_decoded comp_def)
qed

section \<open>The instance meets the assumptions\<close>

lemma frame_Nil: "frame [] = [0]"
  by (simp add: frame_def)

lemma frame_Cons: "frame (x # xs) = 1 # x # frame xs"
  by (simp add: frame_def)

lemma frame_prefix_free: "frame a @ r = frame b @ r' \<Longrightarrow> a = b \<and> r = r'"
proof (induction a arbitrary: b)
  case Nil
  then show ?case by (cases b) (simp_all add: frame_Nil frame_Cons)
next
  case (Cons x xs)
  then show ?case by (cases b) (simp_all add: frame_Nil frame_Cons)
qed

lemma demo_decrypt_encrypt:
  "aes_gcm_decrypt demo_crypto k' n' (aes_gcm_encrypt demo_crypto k n pt) =
     (if k' = k \<and> n' = n then Some pt else None)"
proof (cases "k' = k \<and> n' = n")
  case True
  then show ?thesis by (simp add: demo_crypto_def)
next
  case False
  have "take (length (frame k' @ frame n')) (frame k @ frame n @ pt) \<noteq> frame k' @ frame n'"
  proof
    assume a: "take (length (frame k' @ frame n')) (frame k @ frame n @ pt) = frame k' @ frame n'"
    have "frame k @ frame n @ pt =
        take (length (frame k' @ frame n')) (frame k @ frame n @ pt) @
        drop (length (frame k' @ frame n')) (frame k @ frame n @ pt)"
      by (simp only: append_take_drop_id)
    with a have "frame k @ (frame n @ pt) =
        frame k' @ (frame n' @ drop (length (frame k' @ frame n')) (frame k @ frame n @ pt))"
      by (simp only: append_assoc)
    then have "k = k'" and "frame n @ pt =
        frame n' @ drop (length (frame k' @ frame n')) (frame k @ frame n @ pt)"
      using frame_prefix_free by blast+
    then have "k = k'" "n = n'" using frame_prefix_free by blast+
    with False show False by simp
  qed
  with False show ?thesis by (simp add: demo_crypto_def Let_def)
qed

lemma demo_aead_correct: "aead_correct demo_crypto"
  by (simp add: aead_correct_def demo_decrypt_encrypt)

lemma hmac_key_NUL: "length K < 64 \<Longrightarrow> hmac_key H (K @ [0]) = hmac_key H K"
proof -
  assume a: "length K < 64"
  then have "replicate (64 - length K) (0::byte) = 0 # replicate (64 - Suc (length K)) 0"
    by (simp add: Suc_diff_Suc flip: replicate_Suc)
  with a show ?thesis by (simp add: hmac_key_def)
qed

lemma hmac_NUL: "length K < 64 \<Longrightarrow> hmac H (K @ [0]) = hmac H K"
  by (rule ext) (simp add: hmac_def hmac_key_NUL)

lemma pbkdf2_hmac_NUL: "length P < 64 \<Longrightarrow> pbkdf2_hmac H (P @ [0]) = pbkdf2_hmac H P"
  by (rule ext)+ (simp add: pbkdf2_hmac_def hmac_NUL)

lemma length_demo_hash: "length (demo_hash m) = 32"
  by (simp add: demo_hash_def)

lemma length_pbkdf2_block:
  assumes "\<And>m. length (prf m) = 32"
  shows "length (pbkdf2_block prf S c i) = 32"
proof -
  have "length (fold (\<lambda>j t. map2 xor t ((prf ^^ j) u)) js t) = 32"
    if "length t = 32" and "length u = 32" for js t u
    using that
  proof (induction js arbitrary: t)
    case Nil
    then show ?case by simp
  next
    case (Cons j js)
    have "length ((prf ^^ j) u) = 32" using Cons.prems(2) assms by (cases j) simp_all
    with Cons show ?case by simp
  qed
  then show ?thesis by (simp add: pbkdf2_block_def Let_def assms)
qed

lemma length_concat_blocks:
  "(\<And>x. length (f x) = 32) \<Longrightarrow> length (concat (map f xs)) = 32 * length xs"
  by (induction xs) simp_all

lemma length_pbkdf2_hmac:
  assumes "\<And>m. length (H m) = 32"
  shows "length (pbkdf2_hmac H P S c len) = len div 8"
proof -
  have "\<And>m. length (hmac H P m) = 32" by (simp add: hmac_def assms)
  then have "\<And>i. length (pbkdf2_block (hmac H P) S c i) = 32" by (rule length_pbkdf2_block)
  then have "length (concat (map (pbkdf2_block (hmac H P) S c) [1..<Suc ((len div 8 + 31) div 32)])) =
     32 * ((len div 8 + 31) div 32)"
    by (simp add: length_concat_blocks)
  moreover have "len div 8 \<le> 32 * ((len div 8 + 31) div 32)" by linarith
  ultimately show ?thesis by (simp add: pbkdf2_hmac_def)
qed

lemma demo_hmac_aead_correct: "aead_correct demo_crypto_hmac"
  using demo_aead_correct by (simp add: aead_correct_def demo_crypto_hmac_def)

lemma demo_hmac_kdf_output_length: "kdf_output_length demo_crypto_hmac"
  by (simp add: kdf_output_length_def demo_crypto_hmac_def length_pbkdf2_hmac length_demo_hash)

section \<open>Encrypting and decrypting\<close>

lemma deriveKey_eq:
  "deriveKey W pw slt =
     Inr \<lparr>algorithm = ''AES-GCM'', key_length = 256,
          key_data = pbkdf2 W (strToBuf pw) slt 100000 256\<rparr>"
  by (simp add: deriveKey_def subtle_deriveKey_def)

lemma encryptText_eq:
  "encryptText W pw p r =
     (Inr \<lparr>iv = b64_text (map r [0..<12]),
           salt = b64_text (map (\<lambda>i. r (i + 12)) [0..<16]),
           ciphertext = b64_text
             (aes_gcm_encrypt W (pbkdf2 W (strToBuf pw) (map (\<lambda>i. r (i + 12)) [0..<16]) 100000 256)
                (map r [0..<12]) (strToBuf p))\<rparr>,
      \<lambda>i. r (i + 28))"
  by (simp add: encryptText_def getRandomValues_def deriveKey_eq bufToB64_eq Let_def add.commute)

lemma decryptText_encryptText:
  "decryptText W pw' (Some (projr (fst (encryptText W pw p r)))) =
     (case aes_gcm_decrypt W (pbkdf2 W (strToBuf pw') (map (\<lambda>i. r (i + 12)) [0..<16]) 100000 256)
             (map r [0..<12])
             (aes_gcm_encrypt W (pbkdf2 W (strToBuf pw) (map (\<lambda>i. r (i + 12)) [0..<16]) 100000 256)
                (map r [0..<12]) (strToBuf p)) of
        None \<Rightarrow> Inl OperationError
      | Some pt \<Rightarrow> Inr (bufToStr pt))"
  by (simp add: encryptText_eq decryptText_def b64ToBuf_text deriveKey_eq)

lemma decryptText_same_passphrase:
  "aead_correct W \<Longrightarrow>
     decryptText W pw (Some (projr (fst (encryptText W pw p r)))) = Inr (bufToStr (strToBuf p))"
  by (simp add: decryptText_encryptText aead_correct_def)

lemma encrypt_then_decrypt_eq:
  "encrypt_then_decrypt W pw pw' p r =
     (case aes_gcm_decrypt W (pbkdf2 W (strToBuf pw') (map (\<lambda>i. r (i + 12)) [0..<16]) 100000 256)
             (map r [0..<12])
             (aes_gcm_encrypt W (pbkdf2 W (strToBuf pw) (map (\<lambda>i. r (i + 12)) [0..<16]) 100000 256)
                (map r [0..<12]) (strToBuf p)) of
        None \<Rightarrow> Inl OperationError
      | Some pt \<Rightarrow> Inr (bufToStr pt))"
  using decryptText_encryptText [of W pw' pw p r]
  by (simp add: encrypt_then_decrypt_def encryptText_eq)

lemma encrypt_then_decrypt_same_key:
  assumes "aead_correct W" and "strToBuf pw' = strToBuf pw"
  shows "encrypt_then_decrypt W pw pw' p r = Inr (bufToStr (strToBuf p))"
  using assms by (simp add: encrypt_then_decrypt_eq aead_correct_def)

lemma utf16_decode_append_NUL: "utf16_decode (us @ [0]) = utf16_decode us @ [0]"
  by (induction us rule: utf16_decode.induct) (simp_all add: utf8_encode_def)

lemma strToBuf_append_NUL: "strToBuf (pw @ [0]) = strToBuf pw @ [0]"
  by (simp add: strToBuf_def TextEncoder_encode_def utf16_decode_append_NUL utf8_encode_def)

lemma encrypt_then_decrypt_same_derived_key:
  assumes "aead_correct W" and "pbkdf2 W (strToBuf pw') = pbkdf2 W (strToBuf pw)"
  shows "encrypt_then_decrypt W pw pw' p r = Inr (bufToStr (strToBuf p))"
  using assms by (simp add: encrypt_then_decrypt_eq aead_correct_def)

text \<open>
  With PBKDF2 built from HMAC, a passphrase of fewer than 64 bytes and the same
  passphrase followed by U+0000 derive the same key, whatever the hash and the salt: the
  second decrypts what the first encrypted.
\<close>

lemma NUL_suffix_same_key:
  assumes "aead_correct W" and "pbkdf2 W = pbkdf2_hmac H" and "length (strToBuf pw) < 64"
  shows "encrypt_then_decrypt W pw (pw @ [0]) p r = Inr (bufToStr (strToBuf p))"
  using assms
  by (simp add: encrypt_then_decrypt_same_derived_key strToBuf_append_NUL pbkdf2_hmac_NUL)

lemma salt_draw: "map (\<lambda>i. r (i + 12)) [0..<16] = map r [12..<28]"
proof -
  have "map r (map (\<lambda>i. i + 12) [0..<16]) = map r [12..<16 + 12]"
    by (simp only: map_add_upt)
  then show ?thesis by (simp add: comp_def)
qed

section \<open>The journal store and the journal route\<close>

lemma addEntry_encrypt_payload:
  assumes "passphrase s \<noteq> []"
  shows "addEntry W s e True =
     (None, s\<lparr>entries := entries s @
                [e\<lparr>note' := None, encrypted := Some True,
                   enc := Some (projr (fst (encryptText W (passphrase s)
                            (case note' e of None \<Rightarrow> [] | Some n \<Rightarrow> n) (random s))))\<rparr>],
              journalEntries := entries s @
                [e\<lparr>note' := None, encrypted := Some True,
                   enc := Some (projr (fst (encryptText W (passphrase s)
                            (case note' e of None \<Rightarrow> [] | Some n \<Rightarrow> n) (random s))))\<rparr>],
              random := (\<lambda>i. random s (i + 28))\<rparr>)"
  using assms by (simp add: addEntry_def encryptText_eq Let_def)

lemma addEntry_encrypt_eq:
  "passphrase s \<noteq> [] \<Longrightarrow>
   \<exists>p r. addEntry W s e True =
     (None, s\<lparr>entries := entries s @ [e\<lparr>note' := None, encrypted := Some True, enc := Some p\<rparr>],
              journalEntries := entries s @ [e\<lparr>note' := None, encrypted := Some True, enc := Some p\<rparr>],
              random := r\<rparr>)"
  using addEntry_encrypt_payload by blast

lemma addEntry_plain_eq:
  "addEntry W s e False =
     (None, s\<lparr>entries := entries s @ [e], journalEntries := entries s @ [e]\<rparr>)"
  by (simp add: addEntry_def Let_def)

lemma post_journal_ignores_note:
  "post_journal (body(''note'' := v)) uuid = post_journal body uuid"
  by (auto simp add: post_journal_def Let_def)

lemma post_journal_encrypted_row:
  "post_journal body uuid = Inserted row \<Longrightarrow> truthy (row_encrypted row) \<Longrightarrow>
     truthy (row_ciphertext row) \<and> truthy (row_iv row) \<and> truthy (row_salt row)"
  by (auto simp: post_journal_def Let_def split: if_splits)

lemma addEntry_preserves_entry_ok:
  assumes "\<forall>x \<in> set (entries s). entry_ok x"
    and "encrypt \<or> encrypted e \<noteq> Some True \<and> note' e \<noteq> None \<and> enc e = None"
  shows "\<forall>x \<in> set (entries (snd (addEntry W s e encrypt))). entry_ok x"
proof (cases encrypt)
  case False
  with assms show ?thesis by (auto simp: addEntry_plain_eq entry_ok_def)
next
  case True
  show ?thesis
  proof (cases "passphrase s = []")
    case True
    with assms(1) \<open>encrypt\<close> show ?thesis by (simp add: addEntry_def)
  next
    case False
    from addEntry_encrypt_eq [OF this, of W e] assms(1) \<open>encrypt\<close> show ?thesis
      by (auto simp: entry_ok_def)
  qed
qed

lemma addEntry_stored_list:
  assumes "fst (addEntry W s e encrypt) = None"
  shows "journalEntries (snd (addEntry W s e encrypt)) = entries (snd (addEntry W s e encrypt))"
proof (cases encrypt)
  case False
  then show ?thesis by (simp add: addEntry_plain_eq)
next
  case True
  with assms have "passphrase s \<noteq> []" by (auto simp: addEntry_def)
  from addEntry_encrypt_eq [OF this, of W e] True show ?thesis by auto
qed

lemma save_preserves_entry_ok:
  assumes "\<forall>x \<in> set (entries s). entry_ok x"
  shows "\<forall>x \<in> set (entries (snd (save W s now stamp selected text_of_note tag_list checkbox))). entry_ok x"
  unfolding save_def using assms
  by (rule addEntry_preserves_entry_ok) (simp add: save_payload_def)

lemma step_preserves_entry_ok:
  assumes "\<forall>x \<in> set (entries s). entry_ok x"
  shows "\<forall>x \<in> set (entries (step W s a)). entry_ok x"
proof (cases a)
  case (SetPassphrase pw)
  with assms show ?thesis by simp
next
  case (Save now stamp selected text_of_note tag_list checkbox)
  with save_preserves_entry_ok [OF assms] show ?thesis by simp
qed

lemma save_stored_list:
  assumes "journalEntries s = entries s"
  shows "journalEntries (snd (save W s now stamp selected text_of_note tag_list checkbox)) =
         entries (snd (save W s now stamp selected text_of_note tag_list checkbox))"
proof (cases "fst (save W s now stamp selected text_of_note tag_list checkbox)")
  case None
  then show ?thesis unfolding save_def by (rule addEntry_stored_list)
next
  case (Some err)
  then have "snd (save W s now stamp selected text_of_note tag_list checkbox) = s"
    by (auto simp: save_def addEntry_def encryptText_eq Let_def split: if_splits)
  with assms show ?thesis by simp
qed

lemma step_stored_list:
  assumes "journalEntries s = entries s"
  shows "journalEntries (step W s a) = entries (step W s a)"
proof (cases a)
  case (SetPassphrase pw)
  with assms show ?thesis by simp
next
  case (Save now stamp selected text_of_note tag_list checkbox)
  with save_stored_list [OF assms] show ?thesis by simp
qed

lemma run_invariant:
  assumes "\<forall>x \<in> set (entries s). entry_ok x" and "journalEntries s = entries s"
  shows "(\<forall>x \<in> set (entries (run W s actions)). entry_ok x) \<and>
         journalEntries (run W s actions) = entries (run W s actions)"
  using assms unfolding run_def
proof (induction actions arbitrary: s)
  case Nil
  then show ?case by simp
next
  case (Cons a actions)
  have "\<forall>x \<in> set (entries (step W s a)). entry_ok x" using Cons.prems(1) by (rule step_preserves_entry_ok)
  moreover have "journalEntries (step W s a) = entries (step W s a)" using Cons.prems(2) by (rule step_stored_list)
  ultimately show ?case using Cons.IH by simp
qed

section \<open>The claims\<close>

text \<open>
  C1, as stated, at a concrete input: a text that begins with U+FEFF comes back without
  it. The cipher plays no part in this: it holds with every cipher that inverts its own
  encryption.
\<close>

theorem roundtrip_drops_bom:
  "encrypt_then_decrypt demo_crypto (js ''correct-horse'') (js ''correct-horse'') [0xFEFF, 0x61]
     (\<lambda>i. of_nat i) = Inr [0x61] \<and>
   encrypt_then_decrypt demo_crypto (js ''correct-horse'') (js ''correct-horse'') [0xFEFF, 0x61]
     (\<lambda>i. of_nat i) \<noteq> Inr [0xFEFF, 0x61]"
proof -
  have "bufToStr (strToBuf [0xFEFF, 0x61]) = [0x61]"
    by (simp add: text_decoded drop_bom_def utf16_encode_def)
  with encrypt_then_decrypt_same_key [OF demo_aead_correct refl] show ?thesis by simp
qed

text \<open>
  C1 (amended): for every passphrase and every plaintext that is well formed (no unpaired
  surrogate) and does not begin with U+FEFF, \<^verbatim>\<open>encryptText\<close> succeeds and
  \<^verbatim>\<open>decryptText\<close> with the same passphrase returns the plaintext from the record,
  provided AES-GCM decryption inverts encryption under the same key and nonce.
\<close>

theorem encrypt_decrypt_roundtrip:
  "aead_correct W \<Longrightarrow> well_formed (map unat p) \<Longrightarrow> p = [] \<or> hd p \<noteq> 0xFEFF \<Longrightarrow>
     encrypt_then_decrypt W k k p r = Inr p"
  by (simp add: encrypt_then_decrypt_same_key text_roundtrip)

theorem encrypt_decrypt_roundtrip_witness:
  "aead_correct demo_crypto \<and> well_formed (map unat (js ''Today I felt okay.'')) \<and>
   hd (js ''Today I felt okay.'') \<noteq> 0xFEFF \<and>
   encrypt_then_decrypt demo_crypto (js ''correct-horse'') (js ''correct-horse'')
     (js ''Today I felt okay.'') (\<lambda>i. of_nat i) = Inr (js ''Today I felt okay.'')"
proof -
  have 1: "well_formed (map unat (js ''Today I felt okay.''))" by (simp add: js_def)
  have 2: "hd (js ''Today I felt okay.'') \<noteq> 0xFEFF" by (simp add: js_def)
  from encrypt_decrypt_roundtrip [OF demo_aead_correct 1, of "js ''correct-horse''" "\<lambda>i. of_nat i"] 1 2 demo_aead_correct
  show ?thesis by blast
qed

text \<open>
  C2: the journal store. \<^verbatim>\<open>JournalEditor\<close>'s \<^verbatim>\<open>save\<close> is the only caller of
  \<^verbatim>\<open>addEntry\<close>, and it builds an entry with the text of the note and no
  \<^verbatim>\<open>encrypted\<close> property. With the checkbox set and a passphrase,
  \<^verbatim>\<open>encryptText\<close> succeeds on that text and what is stored is the entry with
  \<^verbatim>\<open>encrypted: true\<close>, no note, and exactly the payload \<^verbatim>\<open>encryptText\<close>
  returned; with the checkbox set and no passphrase nothing is stored; with the checkbox
  clear the entry is stored as built, with its note, no flag and no payload. The same
  holds of \<^verbatim>\<open>addEntry\<close> for every entry it is given: encrypting replaces the
  note by the payload of \<^verbatim>\<open>encryptText\<close>, not encrypting stores the entry as
  given. So after every sequence of passphrase changes and saves, from the empty
  journal or from any journal whose entries have one of the two shapes, every stored
  entry is either encrypted with a payload and no note or not encrypted with a note and
  no payload, and \<^verbatim>\<open>localStorage\<close> holds the same list. On the server,
  \<^verbatim>\<open>POST /journal\<close> does not read a \<^verbatim>\<open>note\<close> property of the request,
  the row it inserts has no note, and a row with a truthy \<^verbatim>\<open>encrypted\<close> has a
  ciphertext, an iv and a salt.
\<close>

theorem journal_store_invariant:
  "(passphrase s \<noteq> [] \<longrightarrow>
      (\<exists>payload.
         encryptText W (passphrase s) text_of_note (random s) = (Inr payload, \<lambda>i. random s (i + 28)) \<and>
         save W s now stamp selected text_of_note tag_list True =
           (None,
            s\<lparr>entries := entries s @
                 [(save_payload now stamp selected text_of_note tag_list)
                    \<lparr>note' := None, encrypted := Some True, enc := Some payload\<rparr>],
              journalEntries := entries s @
                 [(save_payload now stamp selected text_of_note tag_list)
                    \<lparr>note' := None, encrypted := Some True, enc := Some payload\<rparr>],
              random := (\<lambda>i. random s (i + 28))\<rparr>))) \<and>
   (passphrase s = [] \<longrightarrow>
      save W s now stamp selected text_of_note tag_list True =
        (Some (Error ''Passphrase required for encryption''), s)) \<and>
   save W s now stamp selected text_of_note tag_list False =
     (None,
      s\<lparr>entries := entries s @ [save_payload now stamp selected text_of_note tag_list],
        journalEntries := entries s @ [save_payload now stamp selected text_of_note tag_list]\<rparr>) \<and>
   note' (save_payload now stamp selected text_of_note tag_list) = Some text_of_note \<and>
   encrypted (save_payload now stamp selected text_of_note tag_list) = None \<and>
   enc (save_payload now stamp selected text_of_note tag_list) = None \<and>
   (passphrase s \<noteq> [] \<longrightarrow>
      (\<exists>payload.
         encryptText W (passphrase s) (case note' e of None \<Rightarrow> [] | Some n \<Rightarrow> n) (random s) =
           (Inr payload, \<lambda>i. random s (i + 28)) \<and>
         addEntry W s e True =
           (None,
            s\<lparr>entries := entries s @ [e\<lparr>note' := None, encrypted := Some True, enc := Some payload\<rparr>],
              journalEntries :=
                entries s @ [e\<lparr>note' := None, encrypted := Some True, enc := Some payload\<rparr>],
              random := (\<lambda>i. random s (i + 28))\<rparr>))) \<and>
   addEntry W s e False =
     (None, s\<lparr>entries := entries s @ [e], journalEntries := entries s @ [e]\<rparr>) \<and>
   (\<forall>x \<in> set (entries (run W (JournalProvider_initial r) actions)).
      (encrypted x = Some True \<and> note' x = None \<and> enc x \<noteq> None) \<or>
      (encrypted x \<noteq> Some True \<and> note' x \<noteq> None \<and> enc x = None)) \<and>
   journalEntries (run W (JournalProvider_initial r) actions) =
     entries (run W (JournalProvider_initial r) actions) \<and>
   ((\<forall>x \<in> set (entries s). entry_ok x) \<and> journalEntries s = entries s \<longrightarrow>
      (\<forall>x \<in> set (entries (run W s actions)). entry_ok x) \<and>
      journalEntries (run W s actions) = entries (run W s actions)) \<and>
   post_journal (body(''note'' := v)) uuid = post_journal body uuid \<and>
   (\<forall>row. post_journal body uuid = Inserted row \<longrightarrow>
      row = \<lparr>row_id = uuid, row_user_id = body ''user_id'', row_mood = body ''mood'',
             row_mood_label = body ''mood_label'', row_tags = body ''tags'',
             row_encrypted = (case body ''encrypted'' of None \<Rightarrow> Some (JNum 1) | Some j \<Rightarrow> Some j),
             row_ciphertext = body ''ciphertext'', row_iv = body ''iv'', row_salt = body ''salt'',
             row_attachment_url = body ''attachment_url''\<rparr> \<and>
      (truthy (row_encrypted row) \<longrightarrow>
         truthy (row_ciphertext row) \<and> truthy (row_iv row) \<and> truthy (row_salt row)))"
proof -
  let ?e = "save_payload now stamp selected text_of_note tag_list"
  have enc: "passphrase s \<noteq> [] \<longrightarrow>
      (\<exists>payload.
         encryptText W (passphrase s) (case note' x of None \<Rightarrow> [] | Some n \<Rightarrow> n) (random s) =
           (Inr payload, \<lambda>i. random s (i + 28)) \<and>
         addEntry W s x True =
           (None,
            s\<lparr>entries := entries s @ [x\<lparr>note' := None, encrypted := Some True, enc := Some payload\<rparr>],
              journalEntries :=
                entries s @ [x\<lparr>note' := None, encrypted := Some True, enc := Some payload\<rparr>],
              random := (\<lambda>i. random s (i + 28))\<rparr>))" for x
    by (simp add: addEntry_def encryptText_eq Let_def)
  have n: "note' ?e = Some text_of_note" "encrypted ?e = None" "enc ?e = None"
    by (simp_all add: save_payload_def)
  have 1: "passphrase s \<noteq> [] \<longrightarrow>
      (\<exists>payload.
         encryptText W (passphrase s) text_of_note (random s) = (Inr payload, \<lambda>i. random s (i + 28)) \<and>
         save W s now stamp selected text_of_note tag_list True =
           (None,
            s\<lparr>entries := entries s @ [?e\<lparr>note' := None, encrypted := Some True, enc := Some payload\<rparr>],
              journalEntries :=
                entries s @ [?e\<lparr>note' := None, encrypted := Some True, enc := Some payload\<rparr>],
              random := (\<lambda>i. random s (i + 28))\<rparr>))"
    using enc [of ?e] by (simp add: save_def n)
  have 2: "passphrase s = [] \<longrightarrow>
      save W s now stamp selected text_of_note tag_list True =
        (Some (Error ''Passphrase required for encryption''), s)"
    by (simp add: save_def addEntry_def)
  have 3: "save W s now stamp selected text_of_note tag_list False =
     (None, s\<lparr>entries := entries s @ [?e], journalEntries := entries s @ [?e]\<rparr>)"
    by (simp add: save_def addEntry_plain_eq)
  have 4: "addEntry W s e False =
     (None, s\<lparr>entries := entries s @ [e], journalEntries := entries s @ [e]\<rparr>)"
    by (rule addEntry_plain_eq)
  have i0: "\<forall>x \<in> set (entries (JournalProvider_initial r)). entry_ok x"
    "journalEntries (JournalProvider_initial r) = entries (JournalProvider_initial r)"
    by (simp_all add: JournalProvider_initial_def)
  from run_invariant [OF i0]
  have 5: "\<forall>x \<in> set (entries (run W (JournalProvider_initial r) actions)).
      (encrypted x = Some True \<and> note' x = None \<and> enc x \<noteq> None) \<or>
      (encrypted x \<noteq> Some True \<and> note' x \<noteq> None \<and> enc x = None)"
    and 6: "journalEntries (run W (JournalProvider_initial r) actions) =
      entries (run W (JournalProvider_initial r) actions)"
    by (simp_all add: entry_ok_def)
  have 7: "(\<forall>x \<in> set (entries s). entry_ok x) \<and> journalEntries s = entries s \<longrightarrow>
      (\<forall>x \<in> set (entries (run W s actions)). entry_ok x) \<and>
      journalEntries (run W s actions) = entries (run W s actions)"
    using run_invariant by blast
  have 8: "post_journal (body(''note'' := v)) uuid = post_journal body uuid"
    by (rule post_journal_ignores_note)
  have 9: "\<forall>row. post_journal body uuid = Inserted row \<longrightarrow>
      row = \<lparr>row_id = uuid, row_user_id = body ''user_id'', row_mood = body ''mood'',
             row_mood_label = body ''mood_label'', row_tags = body ''tags'',
             row_encrypted = (case body ''encrypted'' of None \<Rightarrow> Some (JNum 1) | Some j \<Rightarrow> Some j),
             row_ciphertext = body ''ciphertext'', row_iv = body ''iv'', row_salt = body ''salt'',
             row_attachment_url = body ''attachment_url''\<rparr> \<and>
      (truthy (row_encrypted row) \<longrightarrow>
         truthy (row_ciphertext row) \<and> truthy (row_iv row) \<and> truthy (row_salt row))"
    by (auto simp: post_journal_def Let_def split: if_splits option.splits)
  from 1 2 3 n enc [of e] 4 5 6 7 8 9 show ?thesis by (intro conjI)
qed

theorem journal_store_invariant_witness:
  "passphrase (demo_journal\<lparr>entries := [demo_entry], journalEntries := [demo_entry]\<rparr>) \<noteq> [] \<and>
   (\<exists>payload.
      encryptText demo_crypto (js ''correct-horse'') (js ''Better.'') (\<lambda>i. of_nat i) =
        (Inr payload, \<lambda>i. of_nat (i + 28)) \<and>
      entries (snd (save demo_crypto (demo_journal\<lparr>entries := [demo_entry], journalEntries := [demo_entry]\<rparr>)
                      2 (js ''2024-01-02'') None (js ''Better.'') [] True)) =
        [demo_entry,
         (save_payload 2 (js ''2024-01-02'') None (js ''Better.'') [])
           \<lparr>note' := None, encrypted := Some True, enc := Some payload\<rparr>]) \<and>
   passphrase (JournalProvider_initial (\<lambda>i. of_nat i)) = [] \<and>
   save demo_crypto (JournalProvider_initial (\<lambda>i. of_nat i)) 2 (js ''2024-01-02'') None (js ''Better.'') [] True =
     (Some (Error ''Passphrase required for encryption''), JournalProvider_initial (\<lambda>i. of_nat i)) \<and>
   list_all entry_ok (entries (demo_journal\<lparr>entries := [demo_entry], journalEntries := [demo_entry]\<rparr>)) \<and>
   length (entries (run demo_crypto (demo_journal\<lparr>entries := [demo_entry], journalEntries := [demo_entry]\<rparr>)
      [Save 2 (js ''2024-01-02'') None (js ''Better.'') [] True, SetPassphrase [],
       Save 3 (js ''2024-01-03'') None (js ''Lost.'') [] True,
       Save 4 (js ''2024-01-04'') None (js ''Plain.'') [] False])) = 3 \<and>
   list_all entry_ok
     (entries (run demo_crypto (demo_journal\<lparr>entries := [demo_entry], journalEntries := [demo_entry]\<rparr>)
      [Save 2 (js ''2024-01-02'') None (js ''Better.'') [] True, SetPassphrase [],
       Save 3 (js ''2024-01-03'') None (js ''Lost.'') [] True,
       Save 4 (js ''2024-01-04'') None (js ''Plain.'') [] False])) \<and>
   (\<exists>row. post_journal demo_body ''id-1'' = Inserted row \<and> truthy (row_encrypted row) \<and>
      truthy (row_ciphertext row) \<and> truthy (row_iv row) \<and> truthy (row_salt row)) \<and>
   post_journal (demo_body(''note'' := None)) ''id-1'' = post_journal demo_body ''id-1''"
proof -
  let ?s = "demo_journal\<lparr>entries := [demo_entry], journalEntries := [demo_entry]\<rparr>"
  let ?init = "JournalProvider_initial (\<lambda>i. of_nat i)"
  let ?acts = "[Save 2 (js ''2024-01-02'') None (js ''Better.'') [] True, SetPassphrase [],
       Save 3 (js ''2024-01-03'') None (js ''Lost.'') [] True,
       Save 4 (js ''2024-01-04'') None (js ''Plain.'') [] False]"
  have 1: "passphrase ?s \<noteq> []" by (simp add: demo_journal_def js_def)
  have 2: "\<forall>x \<in> set (entries ?s). entry_ok x" "journalEntries ?s = entries ?s"
    by (simp_all add: entry_ok_def demo_entry_def)
  have 3: "post_journal demo_body ''id-1'' =
      Inserted \<lparr>row_id = ''id-1'', row_user_id = Some (JStr (js ''u1'')), row_mood = None,
        row_mood_label = None, row_tags = None, row_encrypted = Some (JNum 1),
        row_ciphertext = Some (JStr (js ''AAEC'')), row_iv = Some (JStr (js ''AAEC'')),
        row_salt = Some (JStr (js ''AAEC'')), row_attachment_url = None\<rparr>"
    by (simp add: post_journal_def demo_body_def truthy_def js_def)
  have 4: "truthy (Some (JNum 1))" by (simp add: truthy_def)
  have 5: "passphrase ?init = []" by (simp add: JournalProvider_initial_def)
  have 6: "passphrase ?s = js ''correct-horse''" "random ?s = (\<lambda>i. of_nat i)" "entries ?s = [demo_entry]"
    by (simp_all add: demo_journal_def)
  have 7: "length (entries (run demo_crypto ?s ?acts)) = 3"
    by (simp add: run_def save_def addEntry_def encryptText_eq Let_def demo_journal_def js_def)
  note t = journal_store_invariant
    [where W = demo_crypto and s = ?s and e = demo_entry and actions = ?acts
       and body = demo_body and uuid = "''id-1''" and v = None
       and now = 2 and stamp = "js ''2024-01-02''" and selected = None
       and text_of_note = "js ''Better.''" and tag_list = "[]"]
  note t0 = journal_store_invariant
    [where W = demo_crypto and s = ?init
       and now = 2 and stamp = "js ''2024-01-02''" and selected = None
       and text_of_note = "js ''Better.''" and tag_list = "[]"]
  from t 1 obtain payload where
    "encryptText demo_crypto (passphrase ?s) (js ''Better.'') (random ?s) =
        (Inr payload, \<lambda>i. random ?s (i + 28))"
    "save demo_crypto ?s 2 (js ''2024-01-02'') None (js ''Better.'') [] True =
       (None,
        ?s\<lparr>entries := entries ?s @
             [(save_payload 2 (js ''2024-01-02'') None (js ''Better.'') [])
                \<lparr>note' := None, encrypted := Some True, enc := Some payload\<rparr>],
           journalEntries := entries ?s @
             [(save_payload 2 (js ''2024-01-02'') None (js ''Better.'') [])
                \<lparr>note' := None, encrypted := Some True, enc := Some payload\<rparr>],
           random := (\<lambda>i. random ?s (i + 28))\<rparr>)"
    by blast
  then have a: "\<exists>payload.
      encryptText demo_crypto (js ''correct-horse'') (js ''Better.'') (\<lambda>i. of_nat i) =
        (Inr payload, \<lambda>i. of_nat (i + 28)) \<and>
      entries (snd (save demo_crypto ?s 2 (js ''2024-01-02'') None (js ''Better.'') [] True)) =
        [demo_entry,
         (save_payload 2 (js ''2024-01-02'') None (js ''Better.'') [])
           \<lparr>note' := None, encrypted := Some True, enc := Some payload\<rparr>]"
    by (simp add: 6)
  from t0 5 have b: "save demo_crypto ?init 2 (js ''2024-01-02'') None (js ''Better.'') [] True =
     (Some (Error ''Passphrase required for encryption''), ?init)"
    by blast
  from t 2 have c: "\<forall>x \<in> set (entries (run demo_crypto ?s ?acts)). entry_ok x" by blast
  from t have d: "post_journal (demo_body(''note'' := None)) ''id-1'' = post_journal demo_body ''id-1''"
    by blast
  from t 3 4 have e: "\<exists>row. post_journal demo_body ''id-1'' = Inserted row \<and> truthy (row_encrypted row) \<and>
      truthy (row_ciphertext row) \<and> truthy (row_iv row) \<and> truthy (row_salt row)"
    by (metis journal_row.select_convs(6))
  from 2(1) have l2: "list_all entry_ok (entries ?s)" by (simp only: list_all_iff)
  from c have lc: "list_all entry_ok (entries (run demo_crypto ?s ?acts))" by (simp only: list_all_iff)
  from 1 a 5 b l2 7 lc e d show ?thesis by blast
qed

text \<open>
  C3: \<^verbatim>\<open>addEntry(entry, true)\<close> with the empty session passphrase throws
  \<^verbatim>\<open>Passphrase required for encryption\<close> and leaves the whole state as it was: the
  entry lists, the stored list and the random source, from which nothing has been drawn.
\<close>

theorem addEntry_requires_passphrase:
  "passphrase s = [] \<Longrightarrow>
     addEntry W s e True = (Some (Error ''Passphrase required for encryption''), s)"
  by (simp add: addEntry_def)

theorem addEntry_requires_passphrase_witness:
  "passphrase (demo_journal\<lparr>passphrase := []\<rparr>) = [] \<and>
   addEntry demo_crypto (demo_journal\<lparr>passphrase := []\<rparr>) demo_entry True =
     (Some (Error ''Passphrase required for encryption''), demo_journal\<lparr>passphrase := []\<rparr>)"
  using addEntry_requires_passphrase
    [where s = "demo_journal\<lparr>passphrase := []\<rparr>" and W = demo_crypto and e = demo_entry]
  by simp

text \<open>
  C4, as stated, at three concrete inputs. The passphrase made of the unpaired surrogate
  U+D800 and the passphrase made of U+FFFD are different strings with the same UTF-8
  bytes, so the second decrypts what the first encrypted. With PBKDF2 built from HMAC, the
  passphrase \<^verbatim>\<open>correct-horse\<close> and the same followed by U+0000 are different
  strings with different UTF-8 bytes and the same key, so again the second decrypts what
  the first encrypted. And when the second passphrase is empty,
  \<^verbatim>\<open>decryptNote\<close> throws instead of returning the placeholder.
\<close>

theorem wrong_key_not_always_rejected:
  "encrypt_then_decrypt demo_crypto [0xD800] [0xFFFD] (js ''Today I felt okay.'') (\<lambda>i. of_nat i) =
     Inr (js ''Today I felt okay.'') \<and>
   js ''correct-horse'' @ [0] \<noteq> js ''correct-horse'' \<and>
   strToBuf (js ''correct-horse'' @ [0]) \<noteq> strToBuf (js ''correct-horse'') \<and>
   encrypt_then_decrypt demo_crypto_hmac (js ''correct-horse'') (js ''correct-horse'' @ [0])
     (js ''Today I felt okay.'') (\<lambda>i. of_nat i) = Inr (js ''Today I felt okay.'') \<and>
   decryptNote demo_crypto
     ((snd (addEntry demo_crypto demo_journal demo_entry True))\<lparr>passphrase := []\<rparr>)
     (last (entries (snd (addEntry demo_crypto demo_journal demo_entry True)))) =
     Inl (Error ''Passphrase required to decrypt'')"
proof -
  have 1: "strToBuf [0xFFFD] = strToBuf [0xD800]"
    by (simp add: strToBuf_def TextEncoder_encode_def utf8_encode_def)
  have 2: "well_formed (map unat (js ''Today I felt okay.''))" by (simp add: js_def)
  have 3: "hd (js ''Today I felt okay.'') \<noteq> 0xFEFF" by (simp add: js_def)
  have 4: "passphrase demo_journal \<noteq> []" by (simp add: demo_journal_def js_def)
  have 5: "bufToStr (strToBuf (js ''Today I felt okay.'')) = js ''Today I felt okay.''"
    using 2 3 by (simp add: text_roundtrip)
  from encrypt_then_decrypt_same_key [OF demo_aead_correct 1] 5
  have a: "encrypt_then_decrypt demo_crypto [0xD800] [0xFFFD] (js ''Today I felt okay.'')
      (\<lambda>i. of_nat i) = Inr (js ''Today I felt okay.'')"
    by simp
  have b: "decryptNote demo_crypto
     ((snd (addEntry demo_crypto demo_journal demo_entry True))\<lparr>passphrase := []\<rparr>)
     (last (entries (snd (addEntry demo_crypto demo_journal demo_entry True)))) =
     Inl (Error ''Passphrase required to decrypt'')"
    by (simp add: addEntry_encrypt_payload [OF 4] decryptNote_def)
  have c: "js ''correct-horse'' @ [0] \<noteq> js ''correct-horse''" by simp
  have d: "strToBuf (js ''correct-horse'' @ [0]) \<noteq> strToBuf (js ''correct-horse'')"
    by (simp add: strToBuf_append_NUL)
  have 6: "length (strToBuf (js ''correct-horse'')) < 64"
    by (simp add: strToBuf_def TextEncoder_encode_def utf8_encode_def js_def)
  have 7: "pbkdf2 demo_crypto_hmac = pbkdf2_hmac demo_hash" by (simp add: demo_crypto_hmac_def)
  from NUL_suffix_same_key [OF demo_hmac_aead_correct 7 6] 5
  have e: "encrypt_then_decrypt demo_crypto_hmac (js ''correct-horse'') (js ''correct-horse'' @ [0])
     (js ''Today I felt okay.'') (\<lambda>i. of_nat i) = Inr (js ''Today I felt okay.'')"
    by simp
  from a c d e b show ?thesis by blast
qed

text \<open>
  C4 (amended): for every plaintext and all passphrases, \<^verbatim>\<open>decryptText\<close> with
  the second passphrase, on what \<^verbatim>\<open>encryptText\<close> produced with the first, does
  what AES-GCM decryption does under the key that PBKDF2 derives from the second
  passphrase and the stored salt: when AES-GCM rejects, \<^verbatim>\<open>decryptText\<close> fails
  with \<^verbatim>\<open>OperationError\<close> and returns no plaintext; when AES-GCM accepts, it
  returns the decoded result. When both passphrases are non-empty, for the entry that
  \<^verbatim>\<open>addEntry\<close> stored under the first, \<^verbatim>\<open>decryptNote\<close> under the second
  returns \<^verbatim>\<open>Unable to decrypt\<close> whenever \<^verbatim>\<open>decryptText\<close> fails, and never
  throws, and \<^verbatim>\<open>EntryBody\<close> shows what \<^verbatim>\<open>decryptNote\<close> returned. A
  second passphrase from which PBKDF2 derives the same key as from the first is not
  rejected: it gets the plaintext, if AES-GCM decryption inverts encryption.
\<close>

theorem wrong_key_rejected:
  "encrypt_then_decrypt W k1 k2 p r =
     (case aes_gcm_decrypt W (pbkdf2 W (strToBuf k2) (map r [12..<28]) 100000 256) (map r [0..<12])
             (aes_gcm_encrypt W (pbkdf2 W (strToBuf k1) (map r [12..<28]) 100000 256)
                (map r [0..<12]) (strToBuf p)) of
        None \<Rightarrow> Inl OperationError
      | Some pt \<Rightarrow> Inr (bufToStr pt)) \<and>
   (aes_gcm_decrypt W (pbkdf2 W (strToBuf k2) (map r [12..<28]) 100000 256) (map r [0..<12])
             (aes_gcm_encrypt W (pbkdf2 W (strToBuf k1) (map r [12..<28]) 100000 256)
                (map r [0..<12]) (strToBuf p)) = None \<longrightarrow>
      encrypt_then_decrypt W k1 k2 p r = Inl OperationError) \<and>
   (k1 \<noteq> [] \<and> k2 \<noteq> [] \<longrightarrow>
      decryptNote W ((snd (addEntry W (s\<lparr>passphrase := k1\<rparr>) e True))\<lparr>passphrase := k2\<rparr>)
         (last (entries (snd (addEntry W (s\<lparr>passphrase := k1\<rparr>) e True)))) =
        (case encrypt_then_decrypt W k1 k2 (case note' e of None \<Rightarrow> [] | Some n \<Rightarrow> n) (random s) of
           Inl err \<Rightarrow> Inr (Some (js ''Unable to decrypt''))
         | Inr t \<Rightarrow> Inr (Some t)) \<and>
      EntryBody W ((snd (addEntry W (s\<lparr>passphrase := k1\<rparr>) e True))\<lparr>passphrase := k2\<rparr>)
         (last (entries (snd (addEntry W (s\<lparr>passphrase := k1\<rparr>) e True)))) shown =
        (case encrypt_then_decrypt W k1 k2 (case note' e of None \<Rightarrow> [] | Some n \<Rightarrow> n) (random s) of
           Inl err \<Rightarrow> js ''Unable to decrypt''
         | Inr t \<Rightarrow> t)) \<and>
   (aead_correct W \<and>
    pbkdf2 W (strToBuf k2) (map r [12..<28]) 100000 256 =
      pbkdf2 W (strToBuf k1) (map r [12..<28]) 100000 256 \<longrightarrow>
      encrypt_then_decrypt W k1 k2 p r = Inr (bufToStr (strToBuf p)))"
proof -
  have 1: "encrypt_then_decrypt W k1 k2 p r =
     (case aes_gcm_decrypt W (pbkdf2 W (strToBuf k2) (map r [12..<28]) 100000 256) (map r [0..<12])
             (aes_gcm_encrypt W (pbkdf2 W (strToBuf k1) (map r [12..<28]) 100000 256)
                (map r [0..<12]) (strToBuf p)) of
        None \<Rightarrow> Inl OperationError
      | Some pt \<Rightarrow> Inr (bufToStr pt))"
    by (simp only: encrypt_then_decrypt_eq salt_draw)
  have 2: "aes_gcm_decrypt W (pbkdf2 W (strToBuf k2) (map r [12..<28]) 100000 256) (map r [0..<12])
             (aes_gcm_encrypt W (pbkdf2 W (strToBuf k1) (map r [12..<28]) 100000 256)
                (map r [0..<12]) (strToBuf p)) = None \<longrightarrow>
      encrypt_then_decrypt W k1 k2 p r = Inl OperationError"
    by (simp add: 1)
  have 3: "aead_correct W \<and>
    pbkdf2 W (strToBuf k2) (map r [12..<28]) 100000 256 =
      pbkdf2 W (strToBuf k1) (map r [12..<28]) 100000 256 \<longrightarrow>
      encrypt_then_decrypt W k1 k2 p r = Inr (bufToStr (strToBuf p))"
    by (simp add: 1 aead_correct_def)
  have 4: "decryptNote W ((snd (addEntry W (s\<lparr>passphrase := k1\<rparr>) e True))\<lparr>passphrase := k2\<rparr>)
         (last (entries (snd (addEntry W (s\<lparr>passphrase := k1\<rparr>) e True)))) =
        (case encrypt_then_decrypt W k1 k2 (case note' e of None \<Rightarrow> [] | Some n \<Rightarrow> n) (random s) of
           Inl err \<Rightarrow> Inr (Some (js ''Unable to decrypt''))
         | Inr t \<Rightarrow> Inr (Some t)) \<and>
      EntryBody W ((snd (addEntry W (s\<lparr>passphrase := k1\<rparr>) e True))\<lparr>passphrase := k2\<rparr>)
         (last (entries (snd (addEntry W (s\<lparr>passphrase := k1\<rparr>) e True)))) shown =
        (case encrypt_then_decrypt W k1 k2 (case note' e of None \<Rightarrow> [] | Some n \<Rightarrow> n) (random s) of
           Inl err \<Rightarrow> js ''Unable to decrypt''
         | Inr t \<Rightarrow> t)"
    if k: "k1 \<noteq> [] \<and> k2 \<noteq> []"
  proof -
    let ?s = "s\<lparr>passphrase := k1\<rparr>"
    let ?p = "case note' e of None \<Rightarrow> [] | Some n \<Rightarrow> n"
    have ps: "passphrase ?s \<noteq> []" using k by simp
    have d: "encrypt_then_decrypt W k1 k2 ?p (random s) =
        decryptText W k2 (Some (projr (fst (encryptText W k1 ?p (random s)))))"
      by (simp add: encrypt_then_decrypt_def encryptText_eq)
    show ?thesis
      using k by (simp add: addEntry_encrypt_payload [OF ps] decryptNote_def EntryBody_def d
          split: sum.splits)
  qed
  from 1 2 3 4 show ?thesis by blast
qed

theorem wrong_key_rejected_witness:
  "js ''correct-horse'' \<noteq> [] \<and> js ''wrong-pass'' \<noteq> [] \<and>
   aes_gcm_decrypt demo_crypto
     (pbkdf2 demo_crypto (strToBuf (js ''wrong-pass'')) (map (\<lambda>i. of_nat i) [12..<28]) 100000 256)
     (map (\<lambda>i. of_nat i) [0..<12])
     (aes_gcm_encrypt demo_crypto
        (pbkdf2 demo_crypto (strToBuf (js ''correct-horse'')) (map (\<lambda>i. of_nat i) [12..<28]) 100000 256)
        (map (\<lambda>i. of_nat i) [0..<12]) (strToBuf (js ''Today I felt okay.''))) = None \<and>
   encrypt_then_decrypt demo_crypto (js ''correct-horse'') (js ''wrong-pass'')
     (js ''Today I felt okay.'') (\<lambda>i. of_nat i) = Inl OperationError \<and>
   decryptNote demo_crypto
     ((snd (addEntry demo_crypto (demo_journal\<lparr>passphrase := js ''correct-horse''\<rparr>) demo_entry True))
        \<lparr>passphrase := js ''wrong-pass''\<rparr>)
     (last (entries (snd (addEntry demo_crypto (demo_journal\<lparr>passphrase := js ''correct-horse''\<rparr>)
                            demo_entry True)))) =
     Inr (Some (js ''Unable to decrypt'')) \<and>
   EntryBody demo_crypto
     ((snd (addEntry demo_crypto (demo_journal\<lparr>passphrase := js ''correct-horse''\<rparr>) demo_entry True))
        \<lparr>passphrase := js ''wrong-pass''\<rparr>)
     (last (entries (snd (addEntry demo_crypto (demo_journal\<lparr>passphrase := js ''correct-horse''\<rparr>)
                            demo_entry True))))
     (js ''Decrypting...'') = js ''Unable to decrypt'' \<and>
   aead_correct demo_crypto \<and>
   encrypt_then_decrypt demo_crypto (js ''correct-horse'') (js ''correct-horse'')
     (js ''Today I felt okay.'') (\<lambda>i. of_nat i) = Inr (bufToStr (strToBuf (js ''Today I felt okay.'')))"
proof -
  have 1: "js ''correct-horse'' \<noteq> [] \<and> js ''wrong-pass'' \<noteq> []" by (simp add: js_def)
  have "strToBuf (js ''wrong-pass'') \<noteq> strToBuf (js ''correct-horse'')"
    by (simp add: strToBuf_def TextEncoder_encode_def utf8_encode_def js_def)
  then have "pbkdf2 demo_crypto (strToBuf (js ''wrong-pass'')) (map (\<lambda>i. of_nat i) [12..<28]) 100000 256 \<noteq>
     pbkdf2 demo_crypto (strToBuf (js ''correct-horse'')) (map (\<lambda>i. of_nat i) [12..<28]) 100000 256"
    by (simp add: demo_crypto_def)
  then have 2: "aes_gcm_decrypt demo_crypto
     (pbkdf2 demo_crypto (strToBuf (js ''wrong-pass'')) (map (\<lambda>i. of_nat i) [12..<28]) 100000 256)
     (map (\<lambda>i. of_nat i) [0..<12])
     (aes_gcm_encrypt demo_crypto
        (pbkdf2 demo_crypto (strToBuf (js ''correct-horse'')) (map (\<lambda>i. of_nat i) [12..<28]) 100000 256)
        (map (\<lambda>i. of_nat i) [0..<12]) (strToBuf (js ''Today I felt okay.''))) = None"
    by (simp only: demo_decrypt_encrypt) simp
  have 3: "note' demo_entry = Some (js ''Today I felt okay.'')" "random demo_journal = (\<lambda>i. of_nat i)"
    by (simp_all add: demo_entry_def demo_journal_def)
  note t = wrong_key_rejected [where W = demo_crypto and ?k1.0 = "js ''correct-horse''"
      and ?k2.0 = "js ''wrong-pass''" and p = "js ''Today I felt okay.''" and r = "\<lambda>i. of_nat i"
      and s = demo_journal and e = demo_entry and shown = "js ''Decrypting...''"]
  note u = wrong_key_rejected [where W = demo_crypto and ?k1.0 = "js ''correct-horse''"
      and ?k2.0 = "js ''correct-horse''" and p = "js ''Today I felt okay.''" and r = "\<lambda>i. of_nat i"]
  from t 2 have a: "encrypt_then_decrypt demo_crypto (js ''correct-horse'') (js ''wrong-pass'')
     (js ''Today I felt okay.'') (\<lambda>i. of_nat i) = Inl OperationError"
    by blast
  from t 1 a have b: "decryptNote demo_crypto
     ((snd (addEntry demo_crypto (demo_journal\<lparr>passphrase := js ''correct-horse''\<rparr>) demo_entry True))
        \<lparr>passphrase := js ''wrong-pass''\<rparr>)
     (last (entries (snd (addEntry demo_crypto (demo_journal\<lparr>passphrase := js ''correct-horse''\<rparr>)
                            demo_entry True)))) =
     Inr (Some (js ''Unable to decrypt''))"
    by (simp add: 3)
  from t 1 a have c: "EntryBody demo_crypto
     ((snd (addEntry demo_crypto (demo_journal\<lparr>passphrase := js ''correct-horse''\<rparr>) demo_entry True))
        \<lparr>passphrase := js ''wrong-pass''\<rparr>)
     (last (entries (snd (addEntry demo_crypto (demo_journal\<lparr>passphrase := js ''correct-horse''\<rparr>)
                            demo_entry True))))
     (js ''Decrypting...'') = js ''Unable to decrypt''"
    by (simp add: 3)
  from u demo_aead_correct have d: "encrypt_then_decrypt demo_crypto (js ''correct-horse'') (js ''correct-horse'')
     (js ''Today I felt okay.'') (\<lambda>i. of_nat i) = Inr (bufToStr (strToBuf (js ''Today I felt okay.'')))"
    by blast
  from 1 2 a b c demo_aead_correct d show ?thesis by blast
qed

text \<open>
  C5, as stated, at a concrete input: \<^verbatim>\<open>deriveKey\<close> with the empty passphrase and
  a salt of three bytes returns a key.
\<close>

theorem deriveKey_accepts_empty:
  "deriveKey demo_crypto [] [1, 2, 3] =
     Inr \<lparr>algorithm = ''AES-GCM'', key_length = 256, key_data = [1, 2, 3]\<rparr>"
  by (simp add: deriveKey_eq demo_crypto_def strToBuf_def TextEncoder_encode_def)

text \<open>
  C5 (amended): \<^verbatim>\<open>deriveKey\<close> checks nothing. For every passphrase, the empty one
  included, and every salt of any length it returns the 256-bit AES-GCM key that PBKDF2
  derives from the UTF-8 bytes of the passphrase and the salt. The empty passphrase is
  refused by the callers, before any key is derived: by \<^verbatim>\<open>addEntry\<close> when it
  encrypts, and by \<^verbatim>\<open>decryptNote\<close> for an encrypted entry.
\<close>

theorem deriveKey_total:
  "deriveKey W pw slt =
     Inr \<lparr>algorithm = ''AES-GCM'', key_length = 256,
          key_data = pbkdf2 W (strToBuf pw) slt 100000 256\<rparr> \<and>
   (passphrase s = [] \<longrightarrow>
      fst (addEntry W s e True) = Some (Error ''Passphrase required for encryption'') \<and>
      (encrypted e = Some True \<longrightarrow>
         decryptNote W s e = Inl (Error ''Passphrase required to decrypt'')))"
  by (simp add: deriveKey_eq addEntry_def decryptNote_def)

theorem deriveKey_total_witness:
  "passphrase (demo_journal\<lparr>passphrase := []\<rparr>) = [] \<and>
   encrypted (demo_entry\<lparr>encrypted := Some True\<rparr>) = Some True \<and>
   fst (addEntry demo_crypto (demo_journal\<lparr>passphrase := []\<rparr>)
          (demo_entry\<lparr>encrypted := Some True\<rparr>) True) =
     Some (Error ''Passphrase required for encryption'') \<and>
   decryptNote demo_crypto (demo_journal\<lparr>passphrase := []\<rparr>)
     (demo_entry\<lparr>encrypted := Some True\<rparr>) = Inl (Error ''Passphrase required to decrypt'')"
  using deriveKey_total
    [where W = demo_crypto and s = "demo_journal\<lparr>passphrase := []\<rparr>"
       and e = "demo_entry\<lparr>encrypted := Some True\<rparr>" and pw = "[]" and slt = "[]"]
  by simp

text \<open>
  C6, as stated, at a concrete input: with the empty passphrase \<^verbatim>\<open>decryptNote\<close>
  throws for an encrypted entry, and \<^verbatim>\<open>EntryBody\<close>, freshly mounted, goes on
  showing \<^verbatim>\<open>Decrypting...\<close> and not the placeholder.
\<close>

theorem decryptNote_throws_without_passphrase:
  "decryptNote demo_crypto (demo_journal\<lparr>passphrase := []\<rparr>)
     (demo_entry\<lparr>note' := None, encrypted := Some True\<rparr>) =
     Inl (Error ''Passphrase required to decrypt'') \<and>
   EntryBody demo_crypto (demo_journal\<lparr>passphrase := []\<rparr>)
     (demo_entry\<lparr>note' := None, encrypted := Some True\<rparr>)
     (EntryBody_initial (demo_entry\<lparr>note' := None, encrypted := Some True\<rparr>)) = js ''Decrypting...''"
  by (simp add: decryptNote_def EntryBody_def EntryBody_initial_def)

text \<open>
  C6 (amended): for every encrypted entry and every non-empty passphrase,
  \<^verbatim>\<open>decryptNote\<close> returns a string and does not throw; whenever
  \<^verbatim>\<open>decryptText\<close> fails, whatever the exception, the string is
  \<^verbatim>\<open>Unable to decrypt\<close>; and \<^verbatim>\<open>EntryBody\<close> shows the string
  \<^verbatim>\<open>decryptNote\<close> returned, whatever it showed before.
\<close>

theorem decryptNote_placeholder:
  "encrypted e = Some True \<Longrightarrow> passphrase s \<noteq> [] \<Longrightarrow>
     (\<exists>t. decryptNote W s e = Inr (Some t) \<and> EntryBody W s e shown = t) \<and>
     (\<forall>err. decryptText W (passphrase s) (enc e) = Inl err \<longrightarrow>
        decryptNote W s e = Inr (Some (js ''Unable to decrypt'')) \<and>
        EntryBody W s e shown = js ''Unable to decrypt'')"
  by (auto simp: decryptNote_def EntryBody_def split: sum.splits)

theorem decryptNote_placeholder_witness:
  "encrypted (demo_entry\<lparr>note' := None, encrypted := Some True\<rparr>) = Some True \<and>
   passphrase demo_journal \<noteq> [] \<and>
   decryptText demo_crypto (passphrase demo_journal)
     (enc (demo_entry\<lparr>note' := None, encrypted := Some True\<rparr>)) = Inl TypeError \<and>
   decryptNote demo_crypto demo_journal (demo_entry\<lparr>note' := None, encrypted := Some True\<rparr>) =
     Inr (Some (js ''Unable to decrypt'')) \<and>
   EntryBody demo_crypto demo_journal (demo_entry\<lparr>note' := None, encrypted := Some True\<rparr>)
     (js ''Decrypting...'') = js ''Unable to decrypt''"
proof -
  let ?e = "demo_entry\<lparr>note' := None, encrypted := Some True\<rparr>"
  have 1: "encrypted ?e = Some True" by simp
  have 2: "passphrase demo_journal \<noteq> []" by (simp add: demo_journal_def js_def)
  have 3: "decryptText demo_crypto (passphrase demo_journal) (enc ?e) = Inl TypeError"
    by (simp add: decryptText_def demo_entry_def)
  from decryptNote_placeholder [OF 1 2, of demo_crypto "js ''Decrypting...''"] 1 2 3
  show ?thesis by blast
qed

text \<open>
  C7: \<^verbatim>\<open>deriveKey\<close> reads its two arguments and nothing else (no state, no random
  values), so for every passphrase and every salt it succeeds with one key: an AES-GCM
  key of length 256 whose bits are what PBKDF2 derives from the UTF-8 bytes of the
  passphrase and the salt, 32 bytes if PBKDF2 returns as many bits as asked for. A
  second invocation on the same salt, with the same passphrase or any passphrase with the
  same UTF-8 bytes, returns that same key. \<^verbatim>\<open>decryptText\<close> uses it: on every
  record whose three texts decode, to this salt, a nonce and a ciphertext, it does what
  AES-GCM decryption does under that key. And whenever \<^verbatim>\<open>encryptText\<close> draws
  this salt, the record it returns is the three texts and nothing else: the nonce, the
  salt, and the ciphertext produced under that key; the salt decodes from the record;
  \<^verbatim>\<open>decryptText\<close> with the same passphrase decrypts under the key of the
  encryption, and returns the decoded plaintext if AES-GCM decryption inverts
  encryption. What \<^verbatim>\<open>decryptNote\<close> returns depends on the session only through
  the passphrase.
\<close>

theorem deriveKey_deterministic:
  "\<exists>key.
     deriveKey W pw slt = Inr key \<and>
     algorithm key = ''AES-GCM'' \<and> key_length key = 256 \<and>
     key_data key = pbkdf2 W (strToBuf pw) slt 100000 256 \<and>
     (kdf_output_length W \<longrightarrow> 8 * length (key_data key) = 256) \<and>
     (strToBuf pw' = strToBuf pw \<longrightarrow> deriveKey W pw' slt = Inr key) \<and>
     (b64ToBuf (salt payload) = Inr slt \<and> b64ToBuf (iv payload) = Inr n \<and>
      b64ToBuf (ciphertext payload) = Inr ct \<longrightarrow>
        decryptText W pw (Some payload) =
          (case aes_gcm_decrypt W (key_data key) n ct of
             None \<Rightarrow> Inl OperationError
           | Some pt \<Rightarrow> Inr (bufToStr pt))) \<and>
     (map r [12..<28] = slt \<longrightarrow>
        encryptText W pw p r =
          (Inr \<lparr>iv = b64_text (map r [0..<12]), salt = b64_text slt,
                ciphertext = b64_text (aes_gcm_encrypt W (key_data key) (map r [0..<12]) (strToBuf p))\<rparr>,
           \<lambda>i. r (i + 28)) \<and>
        b64ToBuf (b64_text slt) = Inr slt \<and>
        encrypt_then_decrypt W pw pw p r =
          (case aes_gcm_decrypt W (key_data key) (map r [0..<12])
                  (aes_gcm_encrypt W (key_data key) (map r [0..<12]) (strToBuf p)) of
             None \<Rightarrow> Inl OperationError
           | Some pt \<Rightarrow> Inr (bufToStr pt)) \<and>
        (aead_correct W \<longrightarrow> encrypt_then_decrypt W pw pw p r = Inr (bufToStr (strToBuf p)))) \<and>
     (passphrase s1 = pw \<and> passphrase s2 = pw \<longrightarrow> decryptNote W s1 e = decryptNote W s2 e)"
proof -
  let ?key = "\<lparr>algorithm = ''AES-GCM'', key_length = 256,
                key_data = pbkdf2 W (strToBuf pw) slt 100000 256\<rparr>"
  have 1: "deriveKey W pw slt = Inr ?key" by (rule deriveKey_eq)
  have 2: "kdf_output_length W \<longrightarrow> 8 * length (key_data ?key) = 256"
    by (simp add: kdf_output_length_def)
  have 3: "strToBuf pw' = strToBuf pw \<longrightarrow> deriveKey W pw' slt = Inr ?key"
    by (simp add: deriveKey_eq)
  have 4: "b64ToBuf (salt payload) = Inr slt \<and> b64ToBuf (iv payload) = Inr n \<and>
      b64ToBuf (ciphertext payload) = Inr ct \<longrightarrow>
        decryptText W pw (Some payload) =
          (case aes_gcm_decrypt W (key_data ?key) n ct of
             None \<Rightarrow> Inl OperationError
           | Some pt \<Rightarrow> Inr (bufToStr pt))"
    by (simp add: decryptText_def deriveKey_eq)
  have 5: "map r [12..<28] = slt \<longrightarrow>
        encryptText W pw p r =
          (Inr \<lparr>iv = b64_text (map r [0..<12]), salt = b64_text slt,
                ciphertext = b64_text (aes_gcm_encrypt W (key_data ?key) (map r [0..<12]) (strToBuf p))\<rparr>,
           \<lambda>i. r (i + 28)) \<and>
        b64ToBuf (b64_text slt) = Inr slt \<and>
        encrypt_then_decrypt W pw pw p r =
          (case aes_gcm_decrypt W (key_data ?key) (map r [0..<12])
                  (aes_gcm_encrypt W (key_data ?key) (map r [0..<12]) (strToBuf p)) of
             None \<Rightarrow> Inl OperationError
           | Some pt \<Rightarrow> Inr (bufToStr pt)) \<and>
        (aead_correct W \<longrightarrow> encrypt_then_decrypt W pw pw p r = Inr (bufToStr (strToBuf p)))"
    by (auto simp add: encryptText_eq encrypt_then_decrypt_eq salt_draw b64ToBuf_text aead_correct_def)
  have 6: "passphrase s1 = pw \<and> passphrase s2 = pw \<longrightarrow> decryptNote W s1 e = decryptNote W s2 e"
    by (simp add: decryptNote_def)
  have 7: "algorithm ?key = ''AES-GCM''" "key_length ?key = 256"
    "key_data ?key = pbkdf2 W (strToBuf pw) slt 100000 256"
    by simp_all
  from 1 7 2 3 4 5 6 show ?thesis by blast
qed

theorem deriveKey_deterministic_witness:
  "kdf_output_length demo_crypto_hmac \<and> aead_correct demo_crypto_hmac \<and>
   strToBuf [0xFFFD] = strToBuf [0xD800] \<and>
   passphrase (demo_journal\<lparr>passphrase := [0xD800]\<rparr>) = [0xD800] \<and>
   passphrase \<lparr>entries = [demo_entry], passphrase = [0xD800], journalEntries = [], random = (\<lambda>i. 0)\<rparr> =
     [0xD800] \<and>
   (\<exists>key.
      deriveKey demo_crypto_hmac [0xD800] (map of_nat [12..<28]) = Inr key \<and>
      deriveKey demo_crypto_hmac [0xFFFD] (map of_nat [12..<28]) = Inr key \<and>
      8 * length (key_data key) = 256 \<and>
      decryptText demo_crypto_hmac [0xD800]
        (Some \<lparr>iv = b64_text [1, 2, 3], salt = b64_text (map of_nat [12..<28]),
               ciphertext = b64_text [4, 5, 6]\<rparr>) =
        (case aes_gcm_decrypt demo_crypto_hmac (key_data key) [1, 2, 3] [4, 5, 6] of
           None \<Rightarrow> Inl OperationError
         | Some pt \<Rightarrow> Inr (bufToStr pt)) \<and>
      encryptText demo_crypto_hmac [0xD800] (js ''Today I felt okay.'') (\<lambda>i. of_nat i) =
        (Inr \<lparr>iv = b64_text (map of_nat [0..<12]), salt = b64_text (map of_nat [12..<28]),
              ciphertext = b64_text (aes_gcm_encrypt demo_crypto_hmac (key_data key)
                 (map of_nat [0..<12]) (strToBuf (js ''Today I felt okay.'')))\<rparr>,
         \<lambda>i. of_nat (i + 28)) \<and>
      encrypt_then_decrypt demo_crypto_hmac [0xD800] [0xD800] (js ''Today I felt okay.'') (\<lambda>i. of_nat i) =
        Inr (bufToStr (strToBuf (js ''Today I felt okay.'')))) \<and>
   decryptNote demo_crypto_hmac (demo_journal\<lparr>passphrase := [0xD800]\<rparr>) demo_entry =
     decryptNote demo_crypto_hmac
       \<lparr>entries = [demo_entry], passphrase = [0xD800], journalEntries = [], random = (\<lambda>i. 0)\<rparr> demo_entry"
proof -
  let ?payload = "\<lparr>iv = b64_text [1, 2, 3], salt = b64_text (map of_nat [12..<28]),
               ciphertext = b64_text [4, 5, 6]\<rparr>"
  let ?s1 = "demo_journal\<lparr>passphrase := [0xD800]\<rparr>"
  let ?s2 = "\<lparr>entries = [demo_entry], passphrase = [0xD800], journalEntries = [], random = (\<lambda>i. 0)\<rparr>"
  have 1: "strToBuf [0xFFFD] = strToBuf [0xD800]"
    by (simp add: strToBuf_def TextEncoder_encode_def utf8_encode_def)
  have 2: "b64ToBuf (salt ?payload) = Inr (map of_nat [12..<28]) \<and>
      b64ToBuf (iv ?payload) = Inr [1, 2, 3] \<and> b64ToBuf (ciphertext ?payload) = Inr [4, 5, 6]"
    by (simp add: b64ToBuf_text)
  have 3: "map (\<lambda>i. of_nat i) [12..<28] = (map of_nat [12..<28] :: byte list)" by simp
  have 4: "passphrase ?s1 = [0xD800]" "passphrase ?s2 = [0xD800]" by simp_all
  note t = deriveKey_deterministic [where W = demo_crypto_hmac and pw = "[0xD800]" and pw' = "[0xFFFD]"
      and slt = "map of_nat [12..<28]" and payload = ?payload and n = "[1, 2, 3]" and ct = "[4, 5, 6]"
      and r = "\<lambda>i. of_nat i" and p = "js ''Today I felt okay.''" and ?s1.0 = ?s1 and ?s2.0 = ?s2
      and e = demo_entry]
  from t obtain key where k:
    "deriveKey demo_crypto_hmac [0xD800] (map of_nat [12..<28]) = Inr key"
    "kdf_output_length demo_crypto_hmac \<longrightarrow> 8 * length (key_data key) = 256"
    "strToBuf [0xFFFD] = strToBuf [0xD800] \<longrightarrow>
       deriveKey demo_crypto_hmac [0xFFFD] (map of_nat [12..<28]) = Inr key"
    "b64ToBuf (salt ?payload) = Inr (map of_nat [12..<28]) \<and>
      b64ToBuf (iv ?payload) = Inr [1, 2, 3] \<and> b64ToBuf (ciphertext ?payload) = Inr [4, 5, 6] \<longrightarrow>
        decryptText demo_crypto_hmac [0xD800] (Some ?payload) =
          (case aes_gcm_decrypt demo_crypto_hmac (key_data key) [1, 2, 3] [4, 5, 6] of
             None \<Rightarrow> Inl OperationError
           | Some pt \<Rightarrow> Inr (bufToStr pt))"
    "map (\<lambda>i. of_nat i) [12..<28] = (map of_nat [12..<28] :: byte list) \<longrightarrow>
        encryptText demo_crypto_hmac [0xD800] (js ''Today I felt okay.'') (\<lambda>i. of_nat i) =
          (Inr \<lparr>iv = b64_text (map (\<lambda>i. of_nat i) [0..<12]), salt = b64_text (map of_nat [12..<28]),
                ciphertext = b64_text (aes_gcm_encrypt demo_crypto_hmac (key_data key)
                   (map (\<lambda>i. of_nat i) [0..<12]) (strToBuf (js ''Today I felt okay.'')))\<rparr>,
           \<lambda>i. of_nat (i + 28)) \<and>
        (aead_correct demo_crypto_hmac \<longrightarrow>
           encrypt_then_decrypt demo_crypto_hmac [0xD800] [0xD800] (js ''Today I felt okay.'')
             (\<lambda>i. of_nat i) = Inr (bufToStr (strToBuf (js ''Today I felt okay.''))))"
    "passphrase ?s1 = [0xD800] \<and> passphrase ?s2 = [0xD800] \<longrightarrow>
       decryptNote demo_crypto_hmac ?s1 demo_entry = decryptNote demo_crypto_hmac ?s2 demo_entry"
    by blast
  from k(2) demo_hmac_kdf_output_length have a: "8 * length (key_data key) = 256" by blast
  from k(3) 1 have b: "deriveKey demo_crypto_hmac [0xFFFD] (map of_nat [12..<28]) = Inr key" by blast
  from k(4) 2 have c: "decryptText demo_crypto_hmac [0xD800] (Some ?payload) =
          (case aes_gcm_decrypt demo_crypto_hmac (key_data key) [1, 2, 3] [4, 5, 6] of
             None \<Rightarrow> Inl OperationError
           | Some pt \<Rightarrow> Inr (bufToStr pt))" by blast
  from k(5) 3 demo_hmac_aead_correct have d:
    "encryptText demo_crypto_hmac [0xD800] (js ''Today I felt okay.'') (\<lambda>i. of_nat i) =
        (Inr \<lparr>iv = b64_text (map of_nat [0..<12]), salt = b64_text (map of_nat [12..<28]),
              ciphertext = b64_text (aes_gcm_encrypt demo_crypto_hmac (key_data key)
                 (map of_nat [0..<12]) (strToBuf (js ''Today I felt okay.'')))\<rparr>,
         \<lambda>i. of_nat (i + 28))"
    "encrypt_then_decrypt demo_crypto_hmac [0xD800] [0xD800] (js ''Today I felt okay.'') (\<lambda>i. of_nat i) =
        Inr (bufToStr (strToBuf (js ''Today I felt okay.'')))"
    by blast+
  from k(6) 4 have e: "decryptNote demo_crypto_hmac ?s1 demo_entry = decryptNote demo_crypto_hmac ?s2 demo_entry"
    by blast
  from k(1) a b c d have "\<exists>key.
      deriveKey demo_crypto_hmac [0xD800] (map of_nat [12..<28]) = Inr key \<and>
      deriveKey demo_crypto_hmac [0xFFFD] (map of_nat [12..<28]) = Inr key \<and>
      8 * length (key_data key) = 256 \<and>
      decryptText demo_crypto_hmac [0xD800] (Some ?payload) =
        (case aes_gcm_decrypt demo_crypto_hmac (key_data key) [1, 2, 3] [4, 5, 6] of
           None \<Rightarrow> Inl OperationError
         | Some pt \<Rightarrow> Inr (bufToStr pt)) \<and>
      encryptText demo_crypto_hmac [0xD800] (js ''Today I felt okay.'') (\<lambda>i. of_nat i) =
        (Inr \<lparr>iv = b64_text (map of_nat [0..<12]), salt = b64_text (map of_nat [12..<28]),
              ciphertext = b64_text (aes_gcm_encrypt demo_crypto_hmac (key_data key)
                 (map of_nat [0..<12]) (strToBuf (js ''Today I felt okay.'')))\<rparr>,
         \<lambda>i. of_nat (i + 28)) \<and>
      encrypt_then_decrypt demo_crypto_hmac [0xD800] [0xD800] (js ''Today I felt okay.'') (\<lambda>i. of_nat i) =
        Inr (bufToStr (strToBuf (js ''Today I felt okay.'')))"
    by blast
  with demo_hmac_kdf_output_length demo_hmac_aead_correct 1 4 e show ?thesis by blast
qed

text \<open>
  C8, as stated, at a concrete input: two encryptions of the same plaintext under the same
  passphrase, with random draws that differ (in the salt), give records with the same
  \<^verbatim>\<open>iv\<close> field.
\<close>

theorem distinct_draws_same_nonce:
  "map (\<lambda>i. of_nat i :: byte) [0..<28] \<noteq> map (\<lambda>i. if i < 12 then of_nat i else of_nat (i + 1)) [0..<28] \<and>
   (\<exists>a b.
      fst (encryptText demo_crypto (js ''correct-horse'') (js ''Today I felt okay.'') (\<lambda>i. of_nat i)) =
        Inr a \<and>
      fst (encryptText demo_crypto (js ''correct-horse'') (js ''Today I felt okay.'')
             (\<lambda>i. if i < 12 then of_nat i else of_nat (i + 1))) = Inr b \<and>
      iv a = js ''AAECAwQFBgcICQoL'' \<and> iv b = js ''AAECAwQFBgcICQoL'' \<and> iv a = iv b)"
proof -
  have 1: "map (\<lambda>i. of_nat i :: byte) [0..<28] \<noteq>
      map (\<lambda>i. if i < 12 then of_nat i else of_nat (i + 1)) [0..<28]"
    by (simp add: upt_rec [of _ 28])
  have 2: "map (\<lambda>i. if i < 12 then of_nat i else of_nat (i + 1)) [0..<12] =
      (map (\<lambda>i. of_nat i) [0..<12] :: byte list)"
    by simp
  have 3: "b64_text (map (\<lambda>i. of_nat i) [0..<12]) = js ''AAECAwQFBgcICQoL''"
    by (simp add: b64_text_def upt_rec [of _ 12] b64_char_def js_def)
  from 1 show ?thesis by (simp only: encryptText_eq fst_conv enc_payload.simps 2 3) simp
qed

text \<open>
  C8 (amended): every call of \<^verbatim>\<open>encryptText\<close> succeeds, takes the next 12 bytes of
  the random source as the nonce and the 16 bytes after them as the salt, and leaves the
  source 28 bytes further, so that the next call draws the bytes that follow. The record
  holds the nonce, the salt, and the output of AES-GCM for the plaintext under the key
  derived from the passphrase and that salt and under that nonce, each in base64. So for
  two encryptions of the same plaintext under the same passphrase, the
  \<^verbatim>\<open>iv\<close> fields are equal exactly when the two nonces drawn are, the
  \<^verbatim>\<open>salt\<close> fields exactly when the two salts drawn are, and the
  \<^verbatim>\<open>ciphertext\<close> fields exactly when the two outputs of AES-GCM are.
\<close>

theorem fresh_nonce_and_salt:
  "\<exists>a b c.
     encryptText W pw p r1 = (Inr a, \<lambda>i. r1 (i + 28)) \<and>
     encryptText W pw p r2 = (Inr b, \<lambda>i. r2 (i + 28)) \<and>
     encryptText W pw p (\<lambda>i. r1 (i + 28)) = (Inr c, \<lambda>i. r1 (i + 56)) \<and>
     a = \<lparr>iv = b64_text (map r1 [0..<12]), salt = b64_text (map r1 [12..<28]),
          ciphertext = b64_text
            (aes_gcm_encrypt W (pbkdf2 W (strToBuf pw) (map r1 [12..<28]) 100000 256)
               (map r1 [0..<12]) (strToBuf p))\<rparr> \<and>
     b = \<lparr>iv = b64_text (map r2 [0..<12]), salt = b64_text (map r2 [12..<28]),
          ciphertext = b64_text
            (aes_gcm_encrypt W (pbkdf2 W (strToBuf pw) (map r2 [12..<28]) 100000 256)
               (map r2 [0..<12]) (strToBuf p))\<rparr> \<and>
     c = \<lparr>iv = b64_text (map r1 [28..<40]), salt = b64_text (map r1 [40..<56]),
          ciphertext = b64_text
            (aes_gcm_encrypt W (pbkdf2 W (strToBuf pw) (map r1 [40..<56]) 100000 256)
               (map r1 [28..<40]) (strToBuf p))\<rparr> \<and>
     b64ToBuf (iv a) = Inr (map r1 [0..<12]) \<and> length (map r1 [0..<12]) = 12 \<and>
     b64ToBuf (salt a) = Inr (map r1 [12..<28]) \<and> length (map r1 [12..<28]) = 16 \<and>
     (iv a = iv b \<longleftrightarrow> map r1 [0..<12] = map r2 [0..<12]) \<and>
     (salt a = salt b \<longleftrightarrow> map r1 [12..<28] = map r2 [12..<28]) \<and>
     (ciphertext a = ciphertext b \<longleftrightarrow>
        aes_gcm_encrypt W (pbkdf2 W (strToBuf pw) (map r1 [12..<28]) 100000 256)
          (map r1 [0..<12]) (strToBuf p) =
        aes_gcm_encrypt W (pbkdf2 W (strToBuf pw) (map r2 [12..<28]) 100000 256)
          (map r2 [0..<12]) (strToBuf p))"
proof -
  have shift: "map (\<lambda>i. r (i + k)) [m..<n] = map r [m + k..<n + k]" for r :: rng and k m n
    by (induction n) simp_all
  have e: "encryptText W pw p r =
     (Inr \<lparr>iv = b64_text (map r [0..<12]), salt = b64_text (map r [12..<28]),
           ciphertext = b64_text
             (aes_gcm_encrypt W (pbkdf2 W (strToBuf pw) (map r [12..<28]) 100000 256)
                (map r [0..<12]) (strToBuf p))\<rparr>,
      \<lambda>i. r (i + 28))" for r
    by (simp only: encryptText_eq salt_draw)
  have c: "encryptText W pw p (\<lambda>i. r1 (i + 28)) =
     (Inr \<lparr>iv = b64_text (map r1 [28..<40]), salt = b64_text (map r1 [40..<56]),
          ciphertext = b64_text
            (aes_gcm_encrypt W (pbkdf2 W (strToBuf pw) (map r1 [40..<56]) 100000 256)
               (map r1 [28..<40]) (strToBuf p))\<rparr>,
      \<lambda>i. r1 (i + 56))"
  proof -
    have n: "map (\<lambda>i. r1 (i + 28)) [0..<12] = map r1 [28..<40]"
      by (simp only: shift) simp
    have s: "map (\<lambda>i. r1 (i + 28)) [12..<28] = map r1 [40..<56]"
      by (simp only: shift) simp
    have r: "(\<lambda>i. r1 (i + 28 + 28)) = (\<lambda>i. r1 (i + 56))" by (simp add: add.assoc)
    show ?thesis by (simp only: e n s r)
  qed
  have inj: "b64_text x = b64_text y \<longleftrightarrow> x = y" for x y
    using b64_text_inj by blast
  show ?thesis
    by (simp only: c) (simp add: e b64ToBuf_text inj)
qed

theorem fresh_nonce_and_salt_witness:
  "map (\<lambda>i. of_nat i :: byte) [0..<12] \<noteq> map (\<lambda>i. of_nat (i + 28)) [0..<12] \<and>
   map (\<lambda>i. of_nat i :: byte) [12..<28] \<noteq> map (\<lambda>i. of_nat (i + 28)) [12..<28] \<and>
   (\<exists>a b.
      fst (encryptText demo_crypto (js ''correct-horse'') (js ''Today I felt okay.'') (\<lambda>i. of_nat i)) =
        Inr a \<and>
      fst (encryptText demo_crypto (js ''correct-horse'') (js ''Today I felt okay.'')
             (\<lambda>i. of_nat (i + 28))) = Inr b \<and>
      iv a \<noteq> iv b \<and> salt a \<noteq> salt b \<and> ciphertext a \<noteq> ciphertext b)"
proof -
  let ?r1 = "\<lambda>i. of_nat i :: byte"
  let ?r2 = "\<lambda>i. of_nat (i + 28) :: byte"
  let ?k1 = "pbkdf2 demo_crypto (strToBuf (js ''correct-horse'')) (map ?r1 [12..<28]) 100000 256"
  let ?k2 = "pbkdf2 demo_crypto (strToBuf (js ''correct-horse'')) (map ?r2 [12..<28]) 100000 256"
  let ?pt = "strToBuf (js ''Today I felt okay.'')"
  have 1: "map ?r1 [0..<12] \<noteq> map ?r2 [0..<12]" by (simp add: upt_rec [of 0])
  have 2: "map ?r1 [12..<28] \<noteq> map ?r2 [12..<28]" by (simp add: upt_rec [of 12])
  have 3: "aes_gcm_encrypt demo_crypto ?k1 (map ?r1 [0..<12]) ?pt \<noteq>
      aes_gcm_encrypt demo_crypto ?k2 (map ?r2 [0..<12]) ?pt"
  proof
    assume "aes_gcm_encrypt demo_crypto ?k1 (map ?r1 [0..<12]) ?pt =
      aes_gcm_encrypt demo_crypto ?k2 (map ?r2 [0..<12]) ?pt"
    then have "aes_gcm_decrypt demo_crypto ?k1 (map ?r1 [0..<12])
        (aes_gcm_encrypt demo_crypto ?k1 (map ?r1 [0..<12]) ?pt) =
      aes_gcm_decrypt demo_crypto ?k1 (map ?r1 [0..<12])
        (aes_gcm_encrypt demo_crypto ?k2 (map ?r2 [0..<12]) ?pt)"
      by (rule arg_cong)
    with 1 show False by (simp only: demo_decrypt_encrypt) simp
  qed
  from fresh_nonce_and_salt
    [where W = demo_crypto and pw = "js ''correct-horse''" and p = "js ''Today I felt okay.''"
       and ?r1.0 = ?r1 and ?r2.0 = ?r2]
  obtain a b where
    "encryptText demo_crypto (js ''correct-horse'') (js ''Today I felt okay.'') ?r1 =
       (Inr a, \<lambda>i. ?r1 (i + 28))"
    "encryptText demo_crypto (js ''correct-horse'') (js ''Today I felt okay.'') ?r2 =
       (Inr b, \<lambda>i. ?r2 (i + 28))"
    "iv a = iv b \<longleftrightarrow> map ?r1 [0..<12] = map ?r2 [0..<12]"
    "salt a = salt b \<longleftrightarrow> map ?r1 [12..<28] = map ?r2 [12..<28]"
    "ciphertext a = ciphertext b \<longleftrightarrow>
        aes_gcm_encrypt demo_crypto ?k1 (map ?r1 [0..<12]) ?pt =
        aes_gcm_encrypt demo_crypto ?k2 (map ?r2 [0..<12]) ?pt"
    by blast
  with 1 2 3 have "\<exists>a b.
      fst (encryptText demo_crypto (js ''correct-horse'') (js ''Today I felt okay.'') ?r1) = Inr a \<and>
      fst (encryptText demo_crypto (js ''correct-horse'') (js ''Today I felt okay.'') ?r2) = Inr b \<and>
      iv a \<noteq> iv b \<and> salt a \<noteq> salt b \<and> ciphertext a \<noteq> ciphertext b"
    by (metis fst_conv)
  with 1 2 show ?thesis by blast
qed

text \<open>
  C9, as stated, at a concrete input: \<^verbatim>\<open>atob\<close> is forgiving, so the unpadded text
  \<^verbatim>\<open>YQ\<close> is not rejected although the encoder writes the same byte as \<^verbatim>\<open>YQ==\<close>.
\<close>

theorem codec_unpadded_accepted:
  "b64ToBuf (js ''YQ'') = Inr [97] \<and> bufToB64 [97] = Inr (js ''YQ=='')"
  by (simp add: js_def b64ToBuf_def atob_def ascii_whitespace_def b64_value_def Let_def
      bufToB64_eq b64_text_def b64_char_def)

text \<open>
  C9 (amended): for every byte sequence, \<^verbatim>\<open>bufToB64\<close> succeeds and
  \<^verbatim>\<open>b64ToBuf\<close> of its result is the byte sequence. \<^verbatim>\<open>b64ToBuf\<close> accepts a
  text exactly when, ASCII whitespace removed, it is made of characters of the base64
  alphabet, their number not one more than a multiple of four, followed by nothing, or
  followed by one or two \<open>=\<close> that bring the length to a multiple of four; it then
  returns the bytes these characters encode. On every other text it throws
  \<^verbatim>\<open>InvalidCharacterError\<close>.
\<close>

theorem codec_roundtrip:
  "(\<exists>t. bufToB64 buf = Inr t \<and> b64ToBuf t = Inr buf) \<and>
   (filter (\<lambda>c. \<not> ascii_whitespace c) (map unat s) = body @ pad \<and>
    (\<forall>c \<in> set body. b64_value c \<noteq> None) \<and>
    (pad = [] \<and> length body mod 4 \<noteq> 1 \<or>
     (pad = [61] \<or> pad = [61, 61]) \<and> length (body @ pad) mod 4 = 0) \<longrightarrow>
      b64ToBuf s = Inr (map of_nat (b64_decode (map (\<lambda>c. the (b64_value c)) body)))) \<and>
   ((\<nexists>body pad.
       filter (\<lambda>c. \<not> ascii_whitespace c) (map unat s) = body @ pad \<and>
       (\<forall>c \<in> set body. b64_value c \<noteq> None) \<and>
       (pad = [] \<and> length body mod 4 \<noteq> 1 \<or>
        (pad = [61] \<or> pad = [61, 61]) \<and> length (body @ pad) mod 4 = 0)) \<longrightarrow>
      b64ToBuf s = Inl InvalidCharacterError)"
proof (intro conjI impI)
  show "\<exists>t. bufToB64 buf = Inr t \<and> b64ToBuf t = Inr buf"
    using bufToB64_eq b64ToBuf_text by blast
next
  assume "filter (\<lambda>c. \<not> ascii_whitespace c) (map unat s) = body @ pad \<and>
    (\<forall>c \<in> set body. b64_value c \<noteq> None) \<and>
    (pad = [] \<and> length body mod 4 \<noteq> 1 \<or>
     (pad = [61] \<or> pad = [61, 61]) \<and> length (body @ pad) mod 4 = 0)"
  then have "atob s = Inr (map of_nat (b64_decode (map (\<lambda>c. the (b64_value c)) body)))"
    by (intro atob_accepts) blast+
  then show "b64ToBuf s = Inr (map of_nat (b64_decode (map (\<lambda>c. the (b64_value c)) body)))"
    by (simp add: b64ToBuf_def ucast_of_nat_byte comp_def)
next
  assume "\<nexists>body pad.
       filter (\<lambda>c. \<not> ascii_whitespace c) (map unat s) = body @ pad \<and>
       (\<forall>c \<in> set body. b64_value c \<noteq> None) \<and>
       (pad = [] \<and> length body mod 4 \<noteq> 1 \<or>
        (pad = [61] \<or> pad = [61, 61]) \<and> length (body @ pad) mod 4 = 0)"
  then have "atob s = Inl InvalidCharacterError" using atob_rejects by blast
  then show "b64ToBuf s = Inl InvalidCharacterError" by (simp add: b64ToBuf_def)
qed

theorem codec_roundtrip_witness:
  "(\<exists>t. bufToB64 [104, 105] = Inr t \<and> b64ToBuf t = Inr [104, 105]) \<and>
   filter (\<lambda>c. \<not> ascii_whitespace c) (map unat (js ''aGk='')) = [97, 71, 107] @ [61] \<and>
   list_all (\<lambda>c. b64_value c \<noteq> None) [97, 71, 107] \<and>
   length ([97, 71, 107] @ [61 :: nat]) mod 4 = 0 \<and>
   b64ToBuf (js ''aGk='') = Inr [104, 105] \<and>
   (\<nexists>body pad.
       filter (\<lambda>c. \<not> ascii_whitespace c) (map unat (js ''YQ=a'')) = body @ pad \<and>
       (\<forall>c \<in> set body. b64_value c \<noteq> None) \<and>
       (pad = [] \<and> length body mod 4 \<noteq> 1 \<or>
        (pad = [61] \<or> pad = [61, 61]) \<and> length (body @ pad) mod 4 = 0)) \<and>
   b64ToBuf (js ''YQ=a'') = Inl InvalidCharacterError"
proof -
  have 1: "filter (\<lambda>c. \<not> ascii_whitespace c) (map unat (js ''aGk='')) = [97, 71, 107] @ [61]"
    by (simp add: js_def ascii_whitespace_def)
  have 2: "\<forall>c \<in> set [97, 71, 107]. b64_value c \<noteq> None" by (simp add: b64_value_def)
  have 3: "length ([97, 71, 107] @ [61 :: nat]) mod 4 = 0" by simp
  have 4: "map of_nat (b64_decode (map (\<lambda>c. the (b64_value c)) [97, 71, 107])) = ([104, 105] :: byte list)"
    by (simp add: b64_value_def)
  have 5: "b64ToBuf (js ''YQ=a'') = Inl InvalidCharacterError"
    by (simp add: js_def b64ToBuf_def atob_def ascii_whitespace_def b64_value_def Let_def
        strip_padding_def)
  have n: "\<nexists>body pad.
       filter (\<lambda>c. \<not> ascii_whitespace c) (map unat (js ''YQ=a'')) = body @ pad \<and>
       (\<forall>c \<in> set body. b64_value c \<noteq> None) \<and>
       (pad = [] \<and> length body mod 4 \<noteq> 1 \<or>
        (pad = [61] \<or> pad = [61, 61]) \<and> length (body @ pad) mod 4 = 0)"
  proof
    assume "\<exists>body pad.
       filter (\<lambda>c. \<not> ascii_whitespace c) (map unat (js ''YQ=a'')) = body @ pad \<and>
       (\<forall>c \<in> set body. b64_value c \<noteq> None) \<and>
       (pad = [] \<and> length body mod 4 \<noteq> 1 \<or>
        (pad = [61] \<or> pad = [61, 61]) \<and> length (body @ pad) mod 4 = 0)"
    then obtain body pad where h:
      "filter (\<lambda>c. \<not> ascii_whitespace c) (map unat (js ''YQ=a'')) = body @ pad \<and>
       (\<forall>c \<in> set body. b64_value c \<noteq> None) \<and>
       (pad = [] \<and> length body mod 4 \<noteq> 1 \<or>
        (pad = [61] \<or> pad = [61, 61]) \<and> length (body @ pad) mod 4 = 0)"
      by (elim exE)
    from codec_roundtrip [where s = "js ''YQ=a''" and body = body and pad = pad, THEN conjunct2,
        THEN conjunct1]
    have "filter (\<lambda>c. \<not> ascii_whitespace c) (map unat (js ''YQ=a'')) = body @ pad \<and>
       (\<forall>c \<in> set body. b64_value c \<noteq> None) \<and>
       (pad = [] \<and> length body mod 4 \<noteq> 1 \<or>
        (pad = [61] \<or> pad = [61, 61]) \<and> length (body @ pad) mod 4 = 0) \<longrightarrow>
        b64ToBuf (js ''YQ=a'') = Inr (map of_nat (b64_decode (map (\<lambda>c. the (b64_value c)) body)))" .
    from this h
    have "b64ToBuf (js ''YQ=a'') = Inr (map of_nat (b64_decode (map (\<lambda>c. the (b64_value c)) body)))"
      by (rule mp)
    with 5 show False by simp
  qed
  note t = codec_roundtrip [where buf = "[104, 105]" and s = "js ''aGk=''" and body = "[97, 71, 107]"
      and pad = "[61]"]
  from t [THEN conjunct1]
  have a: "\<exists>t. bufToB64 [104, 105] = Inr t \<and> b64ToBuf t = Inr [104, 105]" .
  from t [THEN conjunct2, THEN conjunct1] 1 2 have "b64ToBuf (js ''aGk='') =
      Inr (map of_nat (b64_decode (map (\<lambda>c. the (b64_value c)) [97, 71, 107])))"
    by simp
  with 4 have b: "b64ToBuf (js ''aGk='') = Inr [104, 105]" by simp
  from codec_roundtrip [where s = "js ''YQ=a''", THEN conjunct2, THEN conjunct2] n
  have c: "b64ToBuf (js ''YQ=a'') = Inl InvalidCharacterError" by (rule mp)
  from 2 have l2: "list_all (\<lambda>c. b64_value c \<noteq> None) [97, 71, 107]" by (simp only: list_all_iff)
  from a 1 l2 3 b n c show ?thesis by (intro conjI)
qed

text \<open>
  C10: for an entry whose \<^verbatim>\<open>encrypted\<close> flag is unset or false,
  \<^verbatim>\<open>decryptNote\<close> returns the \<^verbatim>\<open>note\<close> field as it is, whatever the session
  passphrase; it throws \<^verbatim>\<open>Passphrase required to decrypt\<close> exactly when the entry
  is encrypted and the passphrase is empty.
\<close>

theorem decryptNote_plaintext:
  "(encrypted e \<noteq> Some True \<longrightarrow> decryptNote W (s\<lparr>passphrase := pw\<rparr>) e = Inr (note' e)) \<and>
   (decryptNote W s e = Inl (Error ''Passphrase required to decrypt'') \<longleftrightarrow>
      encrypted e = Some True \<and> passphrase s = [])"
  by (auto simp: decryptNote_def split: sum.splits)

theorem decryptNote_plaintext_witness:
  "encrypted demo_entry \<noteq> Some True \<and>
   decryptNote demo_crypto (demo_journal\<lparr>passphrase := []\<rparr>) demo_entry =
     Inr (Some (js ''Today I felt okay.''))"
proof -
  have 1: "encrypted demo_entry \<noteq> Some True" by (simp add: demo_entry_def)
  have 2: "note' demo_entry = Some (js ''Today I felt okay.'')" by (simp add: demo_entry_def)
  from decryptNote_plaintext [where e = demo_entry and W = demo_crypto and s = demo_journal and pw = "[]"] 1 2
  show ?thesis by simp
qed

end
